theory Spec2Isabelle
  imports Main "HOL-Library.AList"
begin

section \<open>The chart connection manager (chartConnectionManager.ts)\<close>

text \<open>
  The interface \<open>ChartConnection\<close>. Candle sticks are opaque to the manager, so their
  type is a parameter \<open>'c\<close>; the unsubscribe callback is a capability of type \<open>'r\<close>
  that the manager only stores and invokes. JavaScript numbers that are counted or
  subtracted (\<open>subscriptionCount\<close>, \<open>lastUpdated\<close>) are integers.

  The field \<open>objectId\<close> is not a field of the interface: it stands for the identity of the
  JavaScript object, so that two records created one after the other under the same key
  can be told apart. No operation reads it.
\<close>

record ('c, 'r) ChartConnection =
  symbol :: string
  exchange :: string
  timeframe :: string
  lastData :: "'c list"
  lastUpdated :: int
  isActive :: bool
  unsubscribe :: 'r
  subscriptionCount :: int
  objectId :: nat

text \<open>
  The class \<open>ChartConnectionManager\<close>. Its only field is the \<open>Map\<close> from keys to
  connections, kept here as an association list in insertion order (the order in which
  a JavaScript \<open>Map\<close> is iterated). Two more components make the effects visible:
  \<open>invoked\<close> is the log of the unsubscribe callbacks the manager has called, oldest
  first, each with the identity of the record it was called on, whether the call returned
  or threw; \<open>allocated\<close> counts the connection objects created so far and gives the next
  one its identity.
\<close>

record ('c, 'r) manager =
  connections :: "(string \<times> ('c, 'r) ChartConnection) list"
  invoked :: "(nat \<times> 'r) list"
  allocated :: nat

definition newManager :: "('c, 'r) manager" where
  "newManager = \<lparr>connections = [], invoked = [], allocated = 0\<rparr>"

definition generateKey :: "string \<Rightarrow> string \<Rightarrow> string \<Rightarrow> string" where
  "generateKey ex symb tf = ex @ ''-'' @ symb @ ''-'' @ tf"

text \<open>\<open>this.connections.get(key)\<close>, and a write through the reference it returned.\<close>

definition getConnection :: "string \<Rightarrow> ('c, 'r) manager \<Rightarrow> ('c, 'r) ChartConnection option" where
  "getConnection key m = map_of (connections m) key"

definition putConnection ::
  "string \<Rightarrow> ('c, 'r) ChartConnection \<Rightarrow> ('c, 'r) manager \<Rightarrow> ('c, 'r) manager" where
  "putConnection key c m = m\<lparr>connections := AList.update key c (connections m)\<rparr>"

text \<open>
  \<open>registerConnection\<close> returns the connection and the manager after the call.
  \<open>now\<close> is the value of \<open>Date.now()\<close> read by the call.
\<close>

definition registerConnection ::
  "string \<Rightarrow> string \<Rightarrow> string \<Rightarrow> 'c list \<Rightarrow> 'r \<Rightarrow> int \<Rightarrow> ('c, 'r) manager
   \<Rightarrow> ('c, 'r) ChartConnection \<times> ('c, 'r) manager" where
  "registerConnection ex symb tf initialData unsubscribeCallback now m =
     (let key = generateKey ex symb tf in
      case getConnection key m of
        Some existingConnection \<Rightarrow>
          (let c = existingConnection\<lparr>subscriptionCount := subscriptionCount existingConnection + 1,
                                      lastUpdated := now\<rparr>
           in (c, putConnection key c m))
      | None \<Rightarrow>
          (let connection = \<lparr>symbol = symb, exchange = ex, timeframe = tf,
                             lastData = initialData, lastUpdated = now, isActive = True,
                             unsubscribe = unsubscribeCallback, subscriptionCount = 1,
                             objectId = allocated m\<rparr>
           in (connection, (putConnection key connection m)\<lparr>allocated := Suc (allocated m)\<rparr>)))"

text \<open>
  \<open>getCachedData\<close>: \<open>None\<close> is JavaScript's \<open>null\<close>. The spread \<open>[...lastData]\<close> is a
  fresh array with the same elements, which as a value is the list itself.
\<close>

definition getCachedData ::
  "string \<Rightarrow> string \<Rightarrow> string \<Rightarrow> int \<Rightarrow> ('c, 'r) manager \<Rightarrow> 'c list option" where
  "getCachedData ex symb tf now m =
     (case getConnection (generateKey ex symb tf) m of
        Some connection \<Rightarrow>
          if now - lastUpdated connection < 30000 then Some (lastData connection) else None
      | None \<Rightarrow> None)"

definition updateCachedData ::
  "string \<Rightarrow> string \<Rightarrow> string \<Rightarrow> 'c list \<Rightarrow> int \<Rightarrow> ('c, 'r) manager \<Rightarrow> ('c, 'r) manager" where
  "updateCachedData ex symb tf newData now m =
     (let key = generateKey ex symb tf in
      case getConnection key m of
        Some connection \<Rightarrow> putConnection key (connection\<lparr>lastData := newData, lastUpdated := now\<rparr>) m
      | None \<Rightarrow> m)"

definition deactivateConnection ::
  "string \<Rightarrow> string \<Rightarrow> string \<Rightarrow> ('c, 'r) manager \<Rightarrow> ('c, 'r) manager" where
  "deactivateConnection ex symb tf m =
     (let key = generateKey ex symb tf in
      case getConnection key m of
        Some connection \<Rightarrow>
          (let c = connection\<lparr>subscriptionCount := subscriptionCount connection - 1\<rparr>
           in putConnection key (if subscriptionCount c \<le> 0 then c\<lparr>isActive := False\<rparr> else c) m)
      | None \<Rightarrow> m)"

definition activateConnection ::
  "string \<Rightarrow> string \<Rightarrow> string \<Rightarrow> int \<Rightarrow> ('c, 'r) manager \<Rightarrow> ('c, 'r) manager" where
  "activateConnection ex symb tf now m =
     (let key = generateKey ex symb tf in
      case getConnection key m of
        Some connection \<Rightarrow>
          putConnection key (connection\<lparr>subscriptionCount := subscriptionCount connection + 1,
                                        isActive := True, lastUpdated := now\<rparr>) m
      | None \<Rightarrow> m)"

text \<open>
  An unsubscribe callback is a function \<open>() => void\<close> supplied by the caller: a call of it
  may return or throw. What it does is a parameter of the model, \<open>throws\<close>: given the calls
  made so far and the callback, whether calling it now throws. (A callback that calls back
  into the manager is outside the model.) A method that calls callbacks returns how it
  ended, \<open>Returned\<close> or \<open>Threw\<close>, together with the registry as it then is: the manager
  has no \<open>try\<close>, so an exception leaves the method at once and reaches its caller.

  \<open>callUnsubscribe\<close> is the call \<open>connection.unsubscribe()\<close>; it is logged either way.
\<close>

datatype outcome = Returned | Threw

type_synonym 'r behaviour = "(nat \<times> 'r) list \<Rightarrow> 'r \<Rightarrow> bool"

definition callUnsubscribe ::
  "'r behaviour \<Rightarrow> ('c, 'r) ChartConnection \<Rightarrow> ('c, 'r) manager \<Rightarrow> outcome \<times> ('c, 'r) manager" where
  "callUnsubscribe throws c m =
     (if throws (invoked m) (unsubscribe c) then Threw else Returned,
      m\<lparr>invoked := invoked m @ [(objectId c, unsubscribe c)]\<rparr>)"

definition deleteConnection :: "string \<Rightarrow> ('c, 'r) manager \<Rightarrow> ('c, 'r) manager" where
  "deleteConnection key m = m\<lparr>connections := AList.delete key (connections m)\<rparr>"

definition removeConnection ::
  "'r behaviour \<Rightarrow> string \<Rightarrow> string \<Rightarrow> string \<Rightarrow> ('c, 'r) manager \<Rightarrow> outcome \<times> ('c, 'r) manager" where
  "removeConnection throws ex symb tf m =
     (let key = generateKey ex symb tf in
      case getConnection key m of
        Some connection \<Rightarrow>
          (let c = connection\<lparr>subscriptionCount := subscriptionCount connection - 1\<rparr>;
               m1 = putConnection key c m
           in if subscriptionCount c \<le> 0
              then (case callUnsubscribe throws c m1 of
                      (Returned, m2) \<Rightarrow> (Returned, deleteConnection key m2)
                    | (Threw, m2) \<Rightarrow> (Threw, m2))
              else (Returned, m1))
      | None \<Rightarrow> (Returned, m))"

text \<open>
  \<open>cleanupInactiveConnections(delay)\<close> only hands a callback to \<open>setTimeout\<close>; the
  registry changes when the event loop runs that callback. \<open>sweepCondition\<close> is the test
  of the callback's loop, \<open>sweepLoop\<close> the loop over the entries of the map, and
  \<open>cleanupInactiveConnections_fire now delay\<close> the callback, run at time \<open>now\<close>. A callback
  that throws ends the loop: its record is not deleted and the entries after it are not
  looked at.
\<close>

definition sweepCondition :: "int \<Rightarrow> int \<Rightarrow> ('c, 'r) ChartConnection \<Rightarrow> bool" where
  "sweepCondition now delay connection \<longleftrightarrow>
     \<not> isActive connection \<and> subscriptionCount connection \<le> 0
     \<and> now - lastUpdated connection > delay"

fun sweepLoop ::
  "'r behaviour \<Rightarrow> int \<Rightarrow> int \<Rightarrow> (string \<times> ('c, 'r) ChartConnection) list \<Rightarrow> ('c, 'r) manager
   \<Rightarrow> outcome \<times> ('c, 'r) manager" where
  "sweepLoop throws now delay [] m = (Returned, m)"
| "sweepLoop throws now delay ((key, connection) # entries) m =
     (if sweepCondition now delay connection
      then (case callUnsubscribe throws connection m of
              (Returned, m1) \<Rightarrow> sweepLoop throws now delay entries (deleteConnection key m1)
            | (Threw, m1) \<Rightarrow> (Threw, m1))
      else sweepLoop throws now delay entries m)"

definition cleanupInactiveConnections_fire ::
  "'r behaviour \<Rightarrow> int \<Rightarrow> int \<Rightarrow> ('c, 'r) manager \<Rightarrow> outcome \<times> ('c, 'r) manager" where
  "cleanupInactiveConnections_fire throws now delay m = sweepLoop throws now delay (connections m) m"

definition isConnectionActive :: "string \<Rightarrow> string \<Rightarrow> string \<Rightarrow> ('c, 'r) manager \<Rightarrow> bool" where
  "isConnectionActive ex symb tf m =
     (case getConnection (generateKey ex symb tf) m of
        Some connection \<Rightarrow> isActive connection \<and> subscriptionCount connection > 0
      | None \<Rightarrow> False)"

definition isConnectionActiveWithGracePeriod ::
  "string \<Rightarrow> string \<Rightarrow> string \<Rightarrow> int \<Rightarrow> int \<Rightarrow> ('c, 'r) manager \<Rightarrow> bool" where
  "isConnectionActiveWithGracePeriod ex symb tf graceMs now m =
     (case getConnection (generateKey ex symb tf) m of
        Some connection \<Rightarrow>
          if subscriptionCount connection > 0 then now - lastUpdated connection < graceMs else False
      | None \<Rightarrow> False)"

text \<open>\<open>connection?.subscriptionCount || 0\<close>: a count of 0 is falsy and gives the 0 on the right.\<close>

definition getSubscriptionCount :: "string \<Rightarrow> string \<Rightarrow> string \<Rightarrow> ('c, 'r) manager \<Rightarrow> int" where
  "getSubscriptionCount ex symb tf m =
     (case getConnection (generateKey ex symb tf) m of
        Some connection \<Rightarrow> if subscriptionCount connection = 0 then 0 else subscriptionCount connection
      | None \<Rightarrow> 0)"

text \<open>
  \<open>cleanupAll\<close>: the loop over the values of the map, then \<open>this.connections.clear()\<close>,
  which is not reached when a callback throws.
\<close>

fun unsubscribeAll ::
  "'r behaviour \<Rightarrow> (string \<times> ('c, 'r) ChartConnection) list \<Rightarrow> ('c, 'r) manager
   \<Rightarrow> outcome \<times> ('c, 'r) manager" where
  "unsubscribeAll throws [] m = (Returned, m)"
| "unsubscribeAll throws ((key, connection) # entries) m =
     (case callUnsubscribe throws connection m of
        (Returned, m1) \<Rightarrow> unsubscribeAll throws entries m1
      | (Threw, m1) \<Rightarrow> (Threw, m1))"

definition cleanupAll :: "'r behaviour \<Rightarrow> ('c, 'r) manager \<Rightarrow> outcome \<times> ('c, 'r) manager" where
  "cleanupAll throws m =
     (case unsubscribeAll throws (connections m) m of
        (Returned, m1) \<Rightarrow> (Returned, m1\<lparr>connections := []\<rparr>)
      | (Threw, m1) \<Rightarrow> (Threw, m1))"

section \<open>Sequences of registry operations\<close>

text \<open>
  The operations that change the registry, as data, so that theorems can speak about
  every sequence of calls. \<open>SweepFires now delay\<close> is the event loop running a callback
  that \<open>cleanupInactiveConnections(delay)\<close> scheduled; sequences may contain any number
  of them at any times, which covers every way sweeps can overlap. \<open>perform\<close> gives the
  registry after the call, also when the call ended with an exception: the exception goes
  to the caller, the registry stays as the call left it.
\<close>

datatype ('c, 'r) operation =
    RegisterConnection string string string "'c list" 'r int
  | UpdateCachedData string string string "'c list" int
  | DeactivateConnection string string string
  | ActivateConnection string string string int
  | RemoveConnection string string string
  | SweepFires int int
  | CleanupAll

fun perform :: "'r behaviour \<Rightarrow> ('c, 'r) operation \<Rightarrow> ('c, 'r) manager \<Rightarrow> ('c, 'r) manager" where
  "perform throws (RegisterConnection ex symb tf d r now) m = snd (registerConnection ex symb tf d r now m)"
| "perform throws (UpdateCachedData ex symb tf d now) m = updateCachedData ex symb tf d now m"
| "perform throws (DeactivateConnection ex symb tf) m = deactivateConnection ex symb tf m"
| "perform throws (ActivateConnection ex symb tf now) m = activateConnection ex symb tf now m"
| "perform throws (RemoveConnection ex symb tf) m = snd (removeConnection throws ex symb tf m)"
| "perform throws (SweepFires now delay) m = snd (cleanupInactiveConnections_fire throws now delay m)"
| "perform throws CleanupAll m = snd (cleanupAll throws m)"

fun performAll :: "'r behaviour \<Rightarrow> ('c, 'r) operation list \<Rightarrow> ('c, 'r) manager \<Rightarrow> ('c, 'r) manager" where
  "performAll throws [] m = m"
| "performAll throws (op # ops) m = performAll throws ops (perform throws op m)"

text \<open>The behaviour in which no callback ever throws.\<close>

definition alwaysReturns :: "'r behaviour \<Rightarrow> bool" where
  "alwaysReturns throws \<longleftrightarrow> (\<forall>h r. \<not> throws h r)"

text \<open>
  How often the unsubscribe callback of the connection object \<open>i\<close> has been called, whether
  that object is still in the registry, and whether it was ever created.
\<close>

definition liveIds :: "('c, 'r) manager \<Rightarrow> nat list" where
  "liveIds m = map (\<lambda>e. objectId (snd e)) (connections m)"

definition invokedIds :: "('c, 'r) manager \<Rightarrow> nat list" where
  "invokedIds m = map fst (invoked m)"

definition unsubscribeCalls :: "nat \<Rightarrow> ('c, 'r) manager \<Rightarrow> nat" where
  "unsubscribeCalls i m = count_list (invokedIds m) i"

definition inRegistry :: "nat \<Rightarrow> ('c, 'r) manager \<Rightarrow> bool" where
  "inRegistry i m \<longleftrightarrow> i \<in> set (liveIds m)"

definition created :: "nat \<Rightarrow> ('c, 'r) manager \<Rightarrow> bool" where
  "created i m \<longleftrightarrow> i < allocated m"

section \<open>The chart hook (useChartTransition.ts)\<close>

text \<open>
  What a rejected promise or a \<open>throw\<close> carries: an \<open>Error\<close> object with its message, or
  any other value. The \<open>catch\<close> block of \<open>initializeChart\<close> tells them apart.
\<close>

datatype thrown = ErrorObject string | OtherValue

definition errorMessage :: "thrown \<Rightarrow> string" where
  "errorMessage err = (case err of ErrorObject msg \<Rightarrow> msg | OtherValue \<Rightarrow> ''Failed to initialize chart'')"

text \<open>The four \<open>useState\<close> cells of the hook.\<close>

record 'c chartState =
  isLoading :: bool
  chartData :: "'c list"
  chartError :: "string option"
  isReusingConnection :: bool

text \<open>Calls of the two injected capabilities, logged in the order they happen.\<close>

datatype capabilityCall = FetchDataFn string string string int | OnSubscribe

record ('c, 'r) world =
  chart :: "'c chartState"
  registry :: "('c, 'r) manager"
  calls :: "capabilityCall list"

text \<open>
  \<open>initializeChart\<close> is an \<open>async\<close> function with one \<open>await\<close>. It is modelled in two
  parts, because the event loop may run other code while the promise of \<open>fetchDataFn\<close>
  is pending: \<open>initializeChart_begin\<close> runs up to the \<open>await\<close> and says whether the
  function is suspended there; \<open>initializeChart_resume\<close> runs from the \<open>await\<close> to the
  end, given how the promise settled (\<open>Inl\<close> a rejection) and what \<open>onSubscribe()\<close>
  does when called (\<open>Inl\<close> an exception). \<open>now1\<close>, \<open>now2\<close> and \<open>now\<close> are the readings
  of \<open>Date.now()\<close> inside \<open>getCachedData\<close>, \<open>activateConnection\<close> and
  \<open>registerConnection\<close>.
\<close>

definition initializeChart_begin ::
  "string \<Rightarrow> string \<Rightarrow> string \<Rightarrow> int \<Rightarrow> int \<Rightarrow> ('c, 'r) world \<Rightarrow> bool \<times> ('c, 'r) world" where
  "initializeChart_begin ex symb tf now1 now2 w =
     (let st = (chart w)\<lparr>isLoading := True, chartError := None\<rparr> in
      case getCachedData ex symb tf now1 (registry w) of
        Some cachedData \<Rightarrow>
          if isConnectionActive ex symb tf (registry w)
          then (False, w\<lparr>chart := st\<lparr>chartData := cachedData, isReusingConnection := True,
                                       isLoading := False\<rparr>,
                          registry := activateConnection ex symb tf now2 (registry w)\<rparr>)
          else (True, w\<lparr>chart := st\<lparr>isReusingConnection := False\<rparr>,
                         calls := calls w @ [FetchDataFn ex symb tf 500]\<rparr>)
      | None \<Rightarrow>
          (True, w\<lparr>chart := st\<lparr>isReusingConnection := False\<rparr>,
                    calls := calls w @ [FetchDataFn ex symb tf 500]\<rparr>))"

definition initializeChart_resume ::
  "string \<Rightarrow> string \<Rightarrow> string \<Rightarrow> thrown + 'c list \<Rightarrow> thrown + 'r \<Rightarrow> int \<Rightarrow> ('c, 'r) world
   \<Rightarrow> ('c, 'r) world" where
  "initializeChart_resume ex symb tf settled onSubscribe now w =
     (case settled of
        Inl err \<Rightarrow>
          w\<lparr>chart := (chart w)\<lparr>chartError := Some (errorMessage err), isLoading := False\<rparr>\<rparr>
      | Inr freshData \<Rightarrow>
          (let st = (chart w)\<lparr>chartData := freshData\<rparr>;
               w1 = w\<lparr>chart := st, calls := calls w @ [OnSubscribe]\<rparr> in
           case onSubscribe of
             Inl err \<Rightarrow>
               w1\<lparr>chart := st\<lparr>chartError := Some (errorMessage err), isLoading := False\<rparr>\<rparr>
           | Inr unsubscribeFn \<Rightarrow>
               w1\<lparr>chart := st\<lparr>isLoading := False\<rparr>,
                  registry := snd (registerConnection ex symb tf freshData unsubscribeFn now (registry w))\<rparr>))"

text \<open>The whole call when nothing else runs while the promise is pending.\<close>

definition initializeChart ::
  "string \<Rightarrow> string \<Rightarrow> string \<Rightarrow> (string \<Rightarrow> string \<Rightarrow> string \<Rightarrow> int \<Rightarrow> thrown + 'c list)
   \<Rightarrow> thrown + 'r \<Rightarrow> int \<Rightarrow> int \<Rightarrow> int \<Rightarrow> ('c, 'r) world \<Rightarrow> ('c, 'r) world" where
  "initializeChart ex symb tf fetchDataFn onSubscribe now1 now2 now3 w =
     (case initializeChart_begin ex symb tf now1 now2 w of
        (True, w1) \<Rightarrow> initializeChart_resume ex symb tf (fetchDataFn ex symb tf 500) onSubscribe now3 w1
      | (False, w1) \<Rightarrow> w1)"

text \<open>
  The cleanup of the hook's first effect, run on unmount: it deactivates the connection and
  schedules a sweep (whose callback is \<open>cleanupInactiveConnections_fire\<close>, run later).
\<close>

definition unmountCleanup :: "string \<Rightarrow> string \<Rightarrow> string \<Rightarrow> ('c, 'r) world \<Rightarrow> ('c, 'r) world" where
  "unmountCleanup ex symb tf w = w\<lparr>registry := deactivateConnection ex symb tf (registry w)\<rparr>"

section \<open>Auxiliary notions for the proofs\<close>

text \<open>The log entry that calling the callback of a map entry leaves.\<close>

definition logEntry :: "string \<times> ('c, 'r) ChartConnection \<Rightarrow> nat \<times> 'r" where
  "logEntry e = (objectId (snd e), unsubscribe (snd e))"

text \<open>
  The invariant of the registry, whatever the callbacks do: keys are unique, every
  connection object is in the map at most once, the objects ever created are those in the
  map together with those in the log, and a log entry about an object in the map names
  the callback stored in it.
\<close>

definition wellFormed :: "('c, 'r) manager \<Rightarrow> bool" where
  "wellFormed m \<longleftrightarrow>
     distinct (map fst (connections m)) \<and> distinct (liveIds m)
     \<and> set (liveIds m) \<union> set (invokedIds m) = {..<allocated m}
     \<and> (\<forall>e \<in> set (invoked m). \<forall>d \<in> set (connections m).
           objectId (snd d) = fst e \<longrightarrow> unsubscribe (snd d) = snd e)"

text \<open>
  What holds in addition when no callback has thrown: no callback was called twice, and no
  object in the map has had its callback called.
\<close>

definition calledOnce :: "('c, 'r) manager \<Rightarrow> bool" where
  "calledOnce m \<longleftrightarrow> distinct (invokedIds m) \<and> set (liveIds m) \<inter> set (invokedIds m) = {}"

text \<open>
  The step from \<open>m\<close> to \<open>m'\<close> only calls callbacks of records of \<open>m\<close> and deletes records
  whose callback it has called.
\<close>

definition onlyReleases :: "('c, 'r) manager \<Rightarrow> ('c, 'r) manager \<Rightarrow> bool" where
  "onlyReleases m m' \<longleftrightarrow>
     allocated m' = allocated m
     \<and> (\<exists>called deleted.
           invoked m' = invoked m @ map logEntry called
         \<and> connections m' = filter (\<lambda>e. e \<notin> set deleted) (connections m)
         \<and> set deleted \<subseteq> set called \<and> set called \<subseteq> set (connections m))"

text \<open>
  The connection object \<open>i\<close> has been created, and wherever it occurs (in the map or in
  the log of calls) the callback that goes with it is \<open>r\<close>.
\<close>

definition callbackOf :: "nat \<Rightarrow> 'r \<Rightarrow> ('c, 'r) manager \<Rightarrow> bool" where
  "callbackOf i r m \<longleftrightarrow>
     i < allocated m
     \<and> (\<forall>e \<in> set (connections m). objectId (snd e) = i \<longrightarrow> unsubscribe (snd e) = r)
     \<and> (\<forall>e \<in> set (invoked m). fst e = i \<longrightarrow> snd e = r)"

text \<open>
  The comparison the specification describes for exchange and symbol: equality after
  mapping the letters \<open>A\<close> to \<open>Z\<close> to lower case. The registry does not use it.
\<close>

definition lowerChar :: "char \<Rightarrow> char" where
  "lowerChar ch =
     (case map_of (zip ''ABCDEFGHIJKLMNOPQRSTUVWXYZ'' ''abcdefghijklmnopqrstuvwxyz'') ch of
        Some l \<Rightarrow> l
      | None \<Rightarrow> ch)"

definition equalIgnoringCase :: "string \<Rightarrow> string \<Rightarrow> bool" where
  "equalIgnoringCase a b \<longleftrightarrow> map lowerChar a = map lowerChar b"

text \<open>
  An operation that takes a reference to the record of the given instrument:
  \<open>registerConnection\<close> or \<open>activateConnection\<close> with that exchange, symbol and timeframe.
\<close>

fun acquires :: "string \<Rightarrow> string \<Rightarrow> string \<Rightarrow> ('c, 'r) operation \<Rightarrow> bool" where
  "acquires ex symb tf (RegisterConnection ex' symb' tf' d r now) \<longleftrightarrow> ex' = ex \<and> symb' = symb \<and> tf' = tf"
| "acquires ex symb tf (ActivateConnection ex' symb' tf' now) \<longleftrightarrow> ex' = ex \<and> symb' = symb \<and> tf' = tf"
| "acquires ex symb tf other \<longleftrightarrow> False"


lemmas registry_defs =
  newManager_def generateKey_def getConnection_def putConnection_def registerConnection_def
  getCachedData_def updateCachedData_def deactivateConnection_def activateConnection_def
  callUnsubscribe_def deleteConnection_def removeConnection_def sweepCondition_def
  cleanupInactiveConnections_fire_def isConnectionActive_def
  isConnectionActiveWithGracePeriod_def getSubscriptionCount_def cleanupAll_def Let_def

section \<open>Lookups after a write\<close>

lemma getConnection_putConnection:
  "getConnection k (putConnection key c m) = (if k = key then Some c else getConnection k m)"
  by (simp add: getConnection_def putConnection_def update_conv')


lemma invoked_putConnection: "invoked (putConnection key c m) = invoked m"
  by (simp add: putConnection_def)

lemma getConnection_allocated: "getConnection k (m\<lparr>allocated := n\<rparr>) = getConnection k m"
  by (simp add: getConnection_def)

lemma getSubscriptionCount_eq:
  "getSubscriptionCount ex symb tf m =
     (case getConnection (generateKey ex symb tf) m of Some c \<Rightarrow> subscriptionCount c | None \<Rightarrow> 0)"
  by (simp add: getSubscriptionCount_def split: option.splits)

section \<open>Association lists\<close>

lemma update_present_ids:
  "map_of al k = Some c \<Longrightarrow> f c' = f c \<Longrightarrow>
     map (\<lambda>e. f (snd e)) (AList.update k c' al) = map (\<lambda>e. f (snd e)) al"
  by (induction al) (auto split: if_splits)

lemma update_present_keys:
  "map_of al k = Some c \<Longrightarrow> map fst (AList.update k c' al) = map fst al"
  by (induction al) (auto split: if_splits)

lemma update_absent:
  "map_of al k = None \<Longrightarrow> AList.update k c al = al @ [(k, c)]"
  by (induction al) (auto split: if_splits)

lemma set_update_subset: "set (AList.update k v al) \<subseteq> insert (k, v) (set al)"
  by (induction al) auto

lemma delete_is_filter: "AList.delete k al = filter (\<lambda>e. fst e \<noteq> k) al"
  by (induction al) auto

lemma filter_other_keys_update:
  "filter (\<lambda>e. fst e \<noteq> k) (AList.update k v al) = filter (\<lambda>e. fst e \<noteq> k) al"
  by (induction al) auto

lemma filter_keys_as_entries:
  assumes "distinct (map fst al)" "D \<subseteq> set al"
  shows "filter (\<lambda>e. fst e \<notin> fst ` D) al = filter (\<lambda>e. e \<notin> D) al"
proof (rule filter_cong[OF refl])
  fix e assume e: "e \<in> set al"
  show "(fst e \<notin> fst ` D) = (e \<notin> D)"
  proof
    assume "fst e \<notin> fst ` D"
    then show "e \<notin> D" by auto
  next
    assume n: "e \<notin> D"
    show "fst e \<notin> fst ` D"
    proof
      assume "fst e \<in> fst ` D"
      then obtain d where d: "d \<in> D" "fst d = fst e" by auto
      with assms(2) have "d \<in> set al" by auto
      with assms(1) e d(2) have "d = e"
        by (metis eq_key_imp_eq_value prod.collapse)
      with d(1) n show False by simp
    qed
  qed
qed


lemma count_list_distinct: "distinct xs \<Longrightarrow> count_list xs x = (if x \<in> set xs then 1 else 0)"
  by (induction xs) auto

lemma count_list_member: "x \<in> set xs \<Longrightarrow> 0 < count_list xs x"
  by (induction xs) auto


section \<open>What the methods that call callbacks do to the registry\<close>

lemma sweepLoop_effect:
  "\<exists>called deleted.
      invoked (snd (sweepLoop throws now delay es m)) = invoked m @ map logEntry called
    \<and> connections (snd (sweepLoop throws now delay es m))
        = filter (\<lambda>e. fst e \<notin> fst ` set deleted) (connections m)
    \<and> set deleted \<subseteq> set called
    \<and> set called \<subseteq> {e \<in> set es. sweepCondition now delay (snd e)}
    \<and> allocated (snd (sweepLoop throws now delay es m)) = allocated m"
proof (induction es arbitrary: m)
  case Nil
  show ?case
    by (rule exI[of _ "[]"], rule exI[of _ "[]"]) simp
next
  case (Cons e es)
  obtain k c where e: "e = (k, c)" by (cases e)
  show ?case
  proof (cases "sweepCondition now delay c")
    case False
    from Cons.IH[of m] obtain called deleted where
      "invoked (snd (sweepLoop throws now delay es m)) = invoked m @ map logEntry called"
      "connections (snd (sweepLoop throws now delay es m))
        = filter (\<lambda>e. fst e \<notin> fst ` set deleted) (connections m)"
      "set deleted \<subseteq> set called"
      "set called \<subseteq> {e \<in> set es. sweepCondition now delay (snd e)}"
      "allocated (snd (sweepLoop throws now delay es m)) = allocated m"
      by blast
    then show ?thesis
      using False
      by (intro exI[of _ called] exI[of _ deleted]) (auto simp: e)
  next
    case True
    show ?thesis
    proof (cases "throws (invoked m) (unsubscribe c)")
      case threw: True
      have run: "sweepLoop throws now delay (e # es) m
                   = (Threw, m\<lparr>invoked := invoked m @ [(objectId c, unsubscribe c)]\<rparr>)"
        using True threw by (simp add: e callUnsubscribe_def)
      show ?thesis
        unfolding run using True
        by (intro exI[of _ "[(k, c)]"] exI[of _ "[]"]) (simp add: logEntry_def e)
    next
      case returned: False
      let ?m1 = "deleteConnection k (m\<lparr>invoked := invoked m @ [(objectId c, unsubscribe c)]\<rparr>)"
      from Cons.IH[of ?m1] obtain called deleted where
        h: "invoked (snd (sweepLoop throws now delay es ?m1)) = invoked ?m1 @ map logEntry called"
        "connections (snd (sweepLoop throws now delay es ?m1))
          = filter (\<lambda>e. fst e \<notin> fst ` set deleted) (connections ?m1)"
        "set deleted \<subseteq> set called"
        "set called \<subseteq> {e \<in> set es. sweepCondition now delay (snd e)}"
        "allocated (snd (sweepLoop throws now delay es ?m1)) = allocated ?m1"
        by blast
      have run: "sweepLoop throws now delay (e # es) m = sweepLoop throws now delay es ?m1"
        using True returned by (simp add: e callUnsubscribe_def)
      have 1: "invoked (snd (sweepLoop throws now delay es ?m1))
                 = invoked m @ map logEntry ((k, c) # called)"
        using h(1) by (simp add: deleteConnection_def logEntry_def)
      have 2: "connections (snd (sweepLoop throws now delay es ?m1))
                 = filter (\<lambda>e. fst e \<notin> fst ` set ((k, c) # deleted)) (connections m)"
        using h(2) by (simp add: deleteConnection_def delete_is_filter conj_commute)
      have 3: "set ((k, c) # deleted) \<subseteq> set ((k, c) # called)"
        using h(3) by auto
      have 4: "set ((k, c) # called) \<subseteq> {d \<in> set (e # es). sweepCondition now delay (snd d)}"
        using h(4) True by (auto simp: e)
      have 5: "allocated (snd (sweepLoop throws now delay es ?m1)) = allocated m"
        using h(5) by (simp add: deleteConnection_def)
      show ?thesis
        unfolding run
        by (intro exI[of _ "(k, c) # called"] exI[of _ "(k, c) # deleted"] conjI) (fact 1 2 3 4 5)+
    qed
  qed
qed

lemma fire_effect:
  assumes "distinct (map fst (connections m))"
  shows "\<exists>called deleted.
      invoked (snd (cleanupInactiveConnections_fire throws now delay m)) = invoked m @ map logEntry called
    \<and> connections (snd (cleanupInactiveConnections_fire throws now delay m))
        = filter (\<lambda>e. e \<notin> set deleted) (connections m)
    \<and> set deleted \<subseteq> set called
    \<and> set called \<subseteq> {e \<in> set (connections m). sweepCondition now delay (snd e)}
    \<and> allocated (snd (cleanupInactiveConnections_fire throws now delay m)) = allocated m"
proof -
  from sweepLoop_effect[of throws now delay "connections m" m] obtain called deleted where
    h: "invoked (snd (sweepLoop throws now delay (connections m) m)) = invoked m @ map logEntry called"
    "connections (snd (sweepLoop throws now delay (connections m) m))
        = filter (\<lambda>e. fst e \<notin> fst ` set deleted) (connections m)"
    "set deleted \<subseteq> set called"
    "set called \<subseteq> {e \<in> set (connections m). sweepCondition now delay (snd e)}"
    "allocated (snd (sweepLoop throws now delay (connections m) m)) = allocated m"
    by blast
  have "set deleted \<subseteq> set (connections m)" using h(3,4) by auto
  from filter_keys_as_entries[OF assms this] h show ?thesis
    unfolding cleanupInactiveConnections_fire_def
    by (intro exI[of _ called] exI[of _ deleted]) simp
qed

lemma onlyReleases_fire:
  assumes "distinct (map fst (connections m))"
  shows "onlyReleases m (snd (cleanupInactiveConnections_fire throws now delay m))"
proof -
  from fire_effect[OF assms, of throws now delay] obtain called deleted where
    h: "invoked (snd (cleanupInactiveConnections_fire throws now delay m)) = invoked m @ map logEntry called"
    "connections (snd (cleanupInactiveConnections_fire throws now delay m))
        = filter (\<lambda>e. e \<notin> set deleted) (connections m)"
    "set deleted \<subseteq> set called"
    "set called \<subseteq> {e \<in> set (connections m). sweepCondition now delay (snd e)}"
    "allocated (snd (cleanupInactiveConnections_fire throws now delay m)) = allocated m"
    by blast
  have "set called \<subseteq> set (connections m)" using h(4) by auto
  with h show ?thesis
    unfolding onlyReleases_def
    by (intro conjI exI[of _ called] exI[of _ deleted]) simp_all
qed

lemma unsubscribeAll_effect:
  "\<exists>called.
      invoked (snd (unsubscribeAll throws es m)) = invoked m @ map logEntry called
    \<and> set called \<subseteq> set es
    \<and> (fst (unsubscribeAll throws es m) = Returned \<longrightarrow> called = es)
    \<and> connections (snd (unsubscribeAll throws es m)) = connections m
    \<and> allocated (snd (unsubscribeAll throws es m)) = allocated m"
proof (induction es arbitrary: m)
  case Nil
  show ?case by (rule exI[of _ "[]"]) simp
next
  case (Cons e es)
  obtain k c where e: "e = (k, c)" by (cases e)
  show ?case
  proof (cases "throws (invoked m) (unsubscribe c)")
    case True
    have run: "unsubscribeAll throws (e # es) m
                 = (Threw, m\<lparr>invoked := invoked m @ [(objectId c, unsubscribe c)]\<rparr>)"
      using True by (simp add: e callUnsubscribe_def)
    show ?thesis
      unfolding run by (rule exI[of _ "[(k, c)]"]) (simp add: logEntry_def e)
  next
    case False
    let ?m1 = "m\<lparr>invoked := invoked m @ [(objectId c, unsubscribe c)]\<rparr>"
    from Cons.IH[of ?m1] obtain called where
      h: "invoked (snd (unsubscribeAll throws es ?m1)) = invoked ?m1 @ map logEntry called"
      "set called \<subseteq> set es"
      "fst (unsubscribeAll throws es ?m1) = Returned \<longrightarrow> called = es"
      "connections (snd (unsubscribeAll throws es ?m1)) = connections ?m1"
      "allocated (snd (unsubscribeAll throws es ?m1)) = allocated ?m1"
      by blast
    have run: "unsubscribeAll throws (e # es) m = unsubscribeAll throws es ?m1"
      using False by (simp add: e callUnsubscribe_def)
    have 1: "invoked (snd (unsubscribeAll throws es ?m1)) = invoked m @ map logEntry ((k, c) # called)"
      using h(1) by (simp add: logEntry_def)
    have 2: "set ((k, c) # called) \<subseteq> set (e # es)" using h(2) by (auto simp: e)
    have 3: "fst (unsubscribeAll throws es ?m1) = Returned \<longrightarrow> (k, c) # called = e # es"
      using h(3) by (simp add: e)
    have 4: "connections (snd (unsubscribeAll throws es ?m1)) = connections m"
      "allocated (snd (unsubscribeAll throws es ?m1)) = allocated m"
      using h(4,5) by simp_all
    show ?thesis
      unfolding run by (intro exI[of _ "(k, c) # called"] conjI) (fact 1 2 3 4)+
  qed
qed

lemma onlyReleases_cleanupAll: "onlyReleases m (snd (cleanupAll throws m))"
proof -
  from unsubscribeAll_effect[of throws "connections m" m] obtain called where
    h: "invoked (snd (unsubscribeAll throws (connections m) m)) = invoked m @ map logEntry called"
    "set called \<subseteq> set (connections m)"
    "fst (unsubscribeAll throws (connections m) m) = Returned \<longrightarrow> called = connections m"
    "connections (snd (unsubscribeAll throws (connections m) m)) = connections m"
    "allocated (snd (unsubscribeAll throws (connections m) m)) = allocated m"
    by blast
  obtain out m1 where r: "unsubscribeAll throws (connections m) m = (out, m1)"
    by (cases "unsubscribeAll throws (connections m) m")
  show ?thesis
  proof (cases out)
    case Returned
    then have c: "called = connections m" using h(3) r by simp
    have "connections (snd (cleanupAll throws m)) = filter (\<lambda>e. e \<notin> set called) (connections m)"
      using r Returned c by (simp add: cleanupAll_def)
    moreover have "invoked (snd (cleanupAll throws m)) = invoked m @ map logEntry called"
      "allocated (snd (cleanupAll throws m)) = allocated m"
      using r Returned h(1,5) by (simp_all add: cleanupAll_def)
    ultimately show ?thesis
      unfolding onlyReleases_def using h(2)
      by (intro conjI exI[of _ called]) simp_all
  next
    case Threw
    have "connections (snd (cleanupAll throws m)) = filter (\<lambda>e. e \<notin> set []) (connections m)"
      using r Threw h(4) by (simp add: cleanupAll_def)
    moreover have "invoked (snd (cleanupAll throws m)) = invoked m @ map logEntry called"
      "allocated (snd (cleanupAll throws m)) = allocated m"
      using r Threw h(1,5) by (simp_all add: cleanupAll_def)
    ultimately show ?thesis
      unfolding onlyReleases_def using h(2)
      by (intro conjI exI[of _ called] exI[of _ "[]"]) simp_all
  qed
qed

section \<open>The invariant of the registry\<close>

lemma wellFormed_newManager: "wellFormed newManager"
  by (simp add: wellFormed_def newManager_def liveIds_def invokedIds_def)

lemma wellFormed_put_present:
  assumes "wellFormed m" "getConnection key m = Some c" "objectId c' = objectId c"
    "unsubscribe c' = unsubscribe c"
  shows "wellFormed (putConnection key c' m)"
proof -
  have mem: "(key, c) \<in> set (connections m)"
    using assms(2) by (auto simp: getConnection_def dest: map_of_SomeD)
  have "\<forall>e \<in> set (invoked m). \<forall>d \<in> set (AList.update key c' (connections m)).
           objectId (snd d) = fst e \<longrightarrow> unsubscribe (snd d) = snd e"
  proof (intro ballI impI)
    fix e d assume e: "e \<in> set (invoked m)" and d: "d \<in> set (AList.update key c' (connections m))"
      and i: "objectId (snd d) = fst e"
    from d set_update_subset[of key c' "connections m"]
    consider "d = (key, c')" | "d \<in> set (connections m)" by auto
    then show "unsubscribe (snd d) = snd e"
    proof cases
      case 1
      then have "objectId (snd (key, c)) = fst e" using i assms(3) by simp
      with assms(1) e mem have "unsubscribe (snd (key, c)) = snd e"
        unfolding wellFormed_def by blast
      then show ?thesis using 1 assms(4) by simp
    next
      case 2
      with assms(1) e i show ?thesis unfolding wellFormed_def by blast
    qed
  qed
  then show ?thesis
    using assms update_present_ids[of "connections m" key c objectId c']
      update_present_keys[of "connections m" key c c']
    by (simp add: wellFormed_def getConnection_def putConnection_def liveIds_def invokedIds_def)
qed

lemma wellFormed_put_absent:
  assumes "wellFormed m" "getConnection key m = None" "objectId c = allocated m"
  shows "wellFormed ((putConnection key c m)\<lparr>allocated := Suc (allocated m)\<rparr>)"
proof -
  have k: "key \<notin> set (map fst (connections m))"
    using assms(2) by (simp add: getConnection_def map_of_eq_None_iff)
  have fresh: "allocated m \<notin> set (liveIds m)" "allocated m \<notin> set (invokedIds m)"
    using assms(1) by (auto simp: wellFormed_def)
  have u: "AList.update key c (connections m) = connections m @ [(key, c)]"
    using assms(2) by (simp add: getConnection_def update_absent)
  have cb: "\<forall>e \<in> set (invoked m). \<forall>d \<in> set (connections m @ [(key, c)]).
           objectId (snd d) = fst e \<longrightarrow> unsubscribe (snd d) = snd e"
    using assms(1,3) fresh(2) by (auto simp: wellFormed_def invokedIds_def)
  show ?thesis
    using assms(1,3) k fresh cb
    by (simp add: wellFormed_def putConnection_def u liveIds_def invokedIds_def lessThan_Suc)
qed

lemma wellFormed_onlyReleases:
  assumes "wellFormed m" "onlyReleases m m'"
  shows "wellFormed m'"
proof -
  let ?f = "\<lambda>e::string \<times> ('a, 'b) ChartConnection. objectId (snd e)"
  from assms(2) obtain called deleted where
    h: "allocated m' = allocated m" "invoked m' = invoked m @ map logEntry called"
    "connections m' = filter (\<lambda>e. e \<notin> set deleted) (connections m)"
    "set deleted \<subseteq> set called" "set called \<subseteq> set (connections m)"
    unfolding onlyReleases_def by blast
  have old: "distinct (map fst (connections m))" "distinct (map ?f (connections m))"
    "?f ` set (connections m) \<union> fst ` set (invoked m) = {..<allocated m}"
    "\<forall>e \<in> set (invoked m). \<forall>d \<in> set (connections m).
        objectId (snd d) = fst e \<longrightarrow> unsubscribe (snd d) = snd e"
    using assms(1) by (simp_all add: wellFormed_def liveIds_def invokedIds_def)
  have inj: "inj_on ?f (set (connections m))"
    using old(2) by (simp add: distinct_map)
  have 1: "distinct (map fst (connections m'))"
    unfolding h(3) using old(1) by (rule distinct_map_filter)
  have 2: "distinct (map ?f (connections m'))"
    unfolding h(3) using old(2) by (rule distinct_map_filter)
  have fl: "fst ` logEntry ` set called = ?f ` set called"
    by (force simp: logEntry_def)
  have 3: "?f ` set (connections m') \<union> fst ` set (invoked m') = {..<allocated m'}"
  proof -
    have "?f ` set (connections m') \<union> ?f ` set called = ?f ` set (connections m)"
      unfolding h(3) using h(4,5) by auto
    then have "?f ` set (connections m') \<union> (fst ` set (invoked m) \<union> ?f ` set called)
                 = ?f ` set (connections m) \<union> fst ` set (invoked m)"
      by blast
    then show ?thesis
      using old(3) by (simp add: h(1,2) fl image_Un)
  qed
  have 4: "\<forall>e \<in> set (invoked m'). \<forall>d \<in> set (connections m').
        objectId (snd d) = fst e \<longrightarrow> unsubscribe (snd d) = snd e"
  proof (intro ballI impI)
    fix e d assume e: "e \<in> set (invoked m')" and d: "d \<in> set (connections m')"
      and i: "objectId (snd d) = fst e"
    have dm: "d \<in> set (connections m)" using d by (simp add: h(3))
    from e consider "e \<in> set (invoked m)" | d0 where "d0 \<in> set called" "e = logEntry d0"
      by (auto simp: h(2))
    then show "unsubscribe (snd d) = snd e"
    proof cases
      case 1
      with old(4) dm i show ?thesis by blast
    next
      case 2
      then have "d0 \<in> set (connections m)" "?f d0 = ?f d"
        using h(5) i by (auto simp: logEntry_def)
      with inj dm have "d0 = d" by (auto dest: inj_onD)
      then show ?thesis using 2(2) by (simp add: logEntry_def)
    qed
  qed
  from 1 2 3 4 show ?thesis
    by (simp add: wellFormed_def liveIds_def invokedIds_def)
qed

text \<open>The three ways \<open>removeConnection\<close> can go.\<close>

lemma removeConnection_absent:
  "getConnection (generateKey ex symb tf) m = None \<Longrightarrow> removeConnection throws ex symb tf m = (Returned, m)"
  by (simp add: removeConnection_def)

lemma removeConnection_kept:
  "getConnection (generateKey ex symb tf) m = Some c \<Longrightarrow> \<not> subscriptionCount c - 1 \<le> 0 \<Longrightarrow>
     removeConnection throws ex symb tf m =
       (Returned, putConnection (generateKey ex symb tf) (c\<lparr>subscriptionCount := subscriptionCount c - 1\<rparr>) m)"
  by (simp add: removeConnection_def Let_def)

lemma removeConnection_releasing:
  assumes "getConnection (generateKey ex symb tf) m = Some c" "subscriptionCount c - 1 \<le> 0"
  shows "snd (removeConnection throws ex symb tf m) =
     (let c' = c\<lparr>subscriptionCount := subscriptionCount c - 1\<rparr>;
          m1 = putConnection (generateKey ex symb tf) c' m
      in m1\<lparr>connections := (if throws (invoked m) (unsubscribe c) then connections m1
                             else filter (\<lambda>e. fst e \<noteq> generateKey ex symb tf) (connections m)),
            invoked := invoked m @ map logEntry [(generateKey ex symb tf, c')]\<rparr>)"
  using assms
  by (simp add: removeConnection_def Let_def callUnsubscribe_def deleteConnection_def
      putConnection_def delete_is_filter filter_other_keys_update logEntry_def)

lemma onlyReleases_removeConnection:
  assumes "distinct (map fst (connections m))" "getConnection (generateKey ex symb tf) m = Some c"
    "subscriptionCount c - 1 \<le> 0"
  shows "onlyReleases (putConnection (generateKey ex symb tf) (c\<lparr>subscriptionCount := subscriptionCount c - 1\<rparr>) m)
           (snd (removeConnection throws ex symb tf m))"
proof -
  let ?k = "generateKey ex symb tf"
  let ?c' = "c\<lparr>subscriptionCount := subscriptionCount c - 1\<rparr>"
  let ?m1 = "putConnection ?k ?c' m"
  have mem: "(?k, ?c') \<in> set (connections ?m1)"
    using getConnection_putConnection[of ?k ?k ?c' m]
    by (auto simp: getConnection_def dest: map_of_SomeD)
  have d1: "distinct (map fst (connections ?m1))"
    using assms(1) by (simp add: putConnection_def distinct_update)
  have del: "filter (\<lambda>e. fst e \<noteq> ?k) (connections m) = filter (\<lambda>e. e \<notin> set [(?k, ?c')]) (connections ?m1)"
  proof -
    have "filter (\<lambda>e. fst e \<noteq> ?k) (connections m) = filter (\<lambda>e. fst e \<notin> fst ` {(?k, ?c')}) (connections ?m1)"
      by (simp add: putConnection_def filter_other_keys_update)
    also have "\<dots> = filter (\<lambda>e. e \<notin> {(?k, ?c')}) (connections ?m1)"
      using mem by (intro filter_keys_as_entries[OF d1]) simp
    finally show ?thesis by simp
  qed
  show ?thesis
  proof (cases "throws (invoked m) (unsubscribe c)")
    case True
    then show ?thesis
      using mem unfolding onlyReleases_def removeConnection_releasing[OF assms(2,3)] Let_def
      by (intro conjI exI[of _ "[(?k, ?c')]"] exI[of _ "[]"]) (simp_all add: invoked_putConnection)
  next
    case False
    then show ?thesis
      using mem del unfolding onlyReleases_def removeConnection_releasing[OF assms(2,3)] Let_def
      by (intro conjI exI[of _ "[(?k, ?c')]"]) (simp_all add: invoked_putConnection)
  qed
qed

lemma wellFormed_perform: "wellFormed m \<Longrightarrow> wellFormed (perform throws op m)"
proof (cases op)
  case (RegisterConnection ex symb tf d r now)
  assume w: "wellFormed m"
  show ?thesis
  proof (cases "getConnection (generateKey ex symb tf) m")
    case None
    then show ?thesis
      using w RegisterConnection
      by (simp add: registerConnection_def Let_def wellFormed_put_absent)
  next
    case (Some c)
    then show ?thesis
      using w RegisterConnection
      by (simp add: registerConnection_def Let_def wellFormed_put_present)
  qed
next
  case (UpdateCachedData ex symb tf d now)
  assume "wellFormed m"
  then show ?thesis
    using UpdateCachedData
    by (auto simp: updateCachedData_def Let_def wellFormed_put_present split: option.splits)
next
  case (DeactivateConnection ex symb tf)
  assume "wellFormed m"
  then show ?thesis
    using DeactivateConnection
    by (auto simp: deactivateConnection_def Let_def wellFormed_put_present split: option.splits)
next
  case (ActivateConnection ex symb tf now)
  assume "wellFormed m"
  then show ?thesis
    using ActivateConnection
    by (auto simp: activateConnection_def Let_def wellFormed_put_present split: option.splits)
next
  case (RemoveConnection ex symb tf)
  assume w: "wellFormed m"
  show ?thesis
  proof (cases "getConnection (generateKey ex symb tf) m")
    case None
    then show ?thesis using w RemoveConnection by (simp add: removeConnection_absent)
  next
    case (Some c)
    have w1: "wellFormed (putConnection (generateKey ex symb tf)
                (c\<lparr>subscriptionCount := subscriptionCount c - 1\<rparr>) m)"
      using w Some by (simp add: wellFormed_put_present)
    show ?thesis
    proof (cases "subscriptionCount c - 1 \<le> 0")
      case True
      have "distinct (map fst (connections m))" using w by (simp add: wellFormed_def)
      from wellFormed_onlyReleases[OF w1 onlyReleases_removeConnection[OF this Some True]]
      show ?thesis using RemoveConnection by simp
    next
      case False
      then show ?thesis
        using w1 Some RemoveConnection by (simp add: removeConnection_kept)
    qed
  qed
next
  case (SweepFires now delay)
  assume w: "wellFormed m"
  then have "distinct (map fst (connections m))" by (simp add: wellFormed_def)
  from wellFormed_onlyReleases[OF w onlyReleases_fire[OF this]] show ?thesis
    using SweepFires by simp
next
  case CleanupAll
  assume w: "wellFormed m"
  from wellFormed_onlyReleases[OF w onlyReleases_cleanupAll] show ?thesis
    using CleanupAll by simp
qed

lemma wellFormed_performAll: "wellFormed m \<Longrightarrow> wellFormed (performAll throws ops m)"
  by (induction ops arbitrary: m) (simp_all add: wellFormed_perform)

lemma wellFormed_reachable: "wellFormed (performAll throws ops newManager)"
  by (rule wellFormed_performAll[OF wellFormed_newManager])

section \<open>When no callback throws\<close>

lemma callUnsubscribe_returns:
  "alwaysReturns throws \<Longrightarrow>
     callUnsubscribe throws c m = (Returned, m\<lparr>invoked := invoked m @ [(objectId c, unsubscribe c)]\<rparr>)"
  by (simp add: callUnsubscribe_def alwaysReturns_def)

lemma sweepLoop_eq:
  assumes "alwaysReturns throws"
  shows "sweepLoop throws now delay es m =
     (Returned,
      m\<lparr>connections := filter (\<lambda>e. fst e \<notin> fst ` {d \<in> set es. sweepCondition now delay (snd d)}) (connections m),
        invoked := invoked m @ map logEntry (filter (\<lambda>e. sweepCondition now delay (snd e)) es)\<rparr>)"
proof (induction es arbitrary: m)
  case Nil
  then show ?case by simp
next
  case (Cons e es)
  obtain k c where e: "e = (k, c)" by (cases e)
  show ?case
  proof (cases "sweepCondition now delay c")
    case True
    have "{d. (d = (k, c) \<or> d \<in> set es) \<and> sweepCondition now delay (snd d)}
          = insert (k, c) {d \<in> set es. sweepCondition now delay (snd d)}"
      using True by auto
    then show ?thesis
      using True by (simp add: e Cons.IH deleteConnection_def callUnsubscribe_returns[OF assms]
          delete_is_filter logEntry_def conj_commute)
  next
    case False
    have "{d. (d = (k, c) \<or> d \<in> set es) \<and> sweepCondition now delay (snd d)}
          = {d \<in> set es. sweepCondition now delay (snd d)}"
      using False by auto
    then show ?thesis
      using False by (simp add: e Cons.IH)
  qed
qed

lemma fire_eq:
  assumes "alwaysReturns throws" "distinct (map fst (connections m))"
  shows "cleanupInactiveConnections_fire throws now delay m =
     (Returned,
      m\<lparr>connections := filter (\<lambda>e. \<not> sweepCondition now delay (snd e)) (connections m),
        invoked := invoked m @ map logEntry (filter (\<lambda>e. sweepCondition now delay (snd e)) (connections m))\<rparr>)"
proof -
  let ?D = "{d \<in> set (connections m). sweepCondition now delay (snd d)}"
  have "filter (\<lambda>e. fst e \<notin> fst ` ?D) (connections m) = filter (\<lambda>e. e \<notin> ?D) (connections m)"
    by (rule filter_keys_as_entries[OF assms(2)]) auto
  also have "\<dots> = filter (\<lambda>e. \<not> sweepCondition now delay (snd e)) (connections m)"
    by (rule filter_cong) auto
  finally show ?thesis
    by (simp add: cleanupInactiveConnections_fire_def sweepLoop_eq[OF assms(1)])
qed

lemma unsubscribeAll_eq:
  "alwaysReturns throws \<Longrightarrow>
     unsubscribeAll throws es m = (Returned, m\<lparr>invoked := invoked m @ map logEntry es\<rparr>)"
  by (induction es arbitrary: m) (auto simp: callUnsubscribe_returns logEntry_def)

lemma cleanupAll_eq:
  "alwaysReturns throws \<Longrightarrow>
     cleanupAll throws m = (Returned, m\<lparr>connections := [], invoked := invoked m @ map logEntry (connections m)\<rparr>)"
  by (simp add: cleanupAll_def unsubscribeAll_eq)

lemma filter_this_key:
  "distinct (map fst al) \<Longrightarrow> map_of al k = Some c \<Longrightarrow> filter (\<lambda>e. \<not> fst e \<noteq> k) al = [(k, c)]"
proof (induction al)
  case Nil
  then show ?case by simp
next
  case (Cons e al)
  show ?case
  proof (cases "fst e = k")
    case True
    with Cons.prems have "e = (k, c)" by (cases e) simp
    moreover have "k \<notin> fst ` set al"
      using Cons.prems(1) True by auto
    then have "filter (\<lambda>e. \<not> fst e \<noteq> k) al = []"
      by (auto simp: filter_empty_conv)
    ultimately show ?thesis by simp
  next
    case False
    with Cons show ?thesis by simp
  qed
qed

lemma removeConnection_eq:
  assumes "alwaysReturns throws" "distinct (map fst (connections m))"
    "getConnection (generateKey ex symb tf) m = Some c" "subscriptionCount c - 1 \<le> 0"
  shows "snd (removeConnection throws ex symb tf m) =
     m\<lparr>connections := filter (\<lambda>e. fst e \<noteq> generateKey ex symb tf) (connections m),
       invoked := invoked m @ map logEntry (filter (\<lambda>e. \<not> fst e \<noteq> generateKey ex symb tf) (connections m))\<rparr>"
proof -
  have "\<not> throws (invoked m) (unsubscribe c)" using assms(1) by (simp add: alwaysReturns_def)
  then show ?thesis
    using assms(3) filter_this_key[OF assms(2), of "generateKey ex symb tf" c]
    by (simp add: removeConnection_releasing[OF assms(3,4)] Let_def putConnection_def
        getConnection_def logEntry_def)
qed

lemma calledOnce_put_present:
  assumes "calledOnce m" "getConnection key m = Some c" "objectId c' = objectId c"
  shows "calledOnce (putConnection key c' m)"
  using assms update_present_ids[of "connections m" key c objectId c']
  by (simp add: calledOnce_def getConnection_def putConnection_def liveIds_def invokedIds_def)

lemma calledOnce_put_absent:
  assumes "wellFormed m" "calledOnce m" "getConnection key m = None" "objectId c = allocated m"
  shows "calledOnce ((putConnection key c m)\<lparr>allocated := Suc (allocated m)\<rparr>)"
proof -
  have fresh: "allocated m \<notin> set (invokedIds m)"
    using assms(1) by (auto simp: wellFormed_def)
  have u: "AList.update key c (connections m) = connections m @ [(key, c)]"
    using assms(3) by (simp add: getConnection_def update_absent)
  show ?thesis
    using assms(2,4) fresh
    by (auto simp: calledOnce_def putConnection_def u liveIds_def invokedIds_def)
qed

lemma calledOnce_filter:
  assumes "wellFormed m" "calledOnce m"
  shows "calledOnce (m\<lparr>connections := filter P (connections m),
                      invoked := invoked m @ map logEntry (filter (\<lambda>e. \<not> P e) (connections m))\<rparr>)"
proof -
  let ?f = "\<lambda>e::string \<times> ('a, 'b) ChartConnection. objectId (snd e)"
  let ?m' = "m\<lparr>connections := filter P (connections m),
                invoked := invoked m @ map logEntry (filter (\<lambda>e. \<not> P e) (connections m))\<rparr>"
  let ?L = "map ?f (filter P (connections m))"
  let ?D = "map ?f (filter (\<lambda>e. \<not> P e) (connections m))"
  have live': "liveIds ?m' = ?L" by (simp add: liveIds_def)
  have inv': "invokedIds ?m' = invokedIds m @ ?D" by (simp add: invokedIds_def logEntry_def)
  have d: "distinct (map ?f (connections m))"
    using assms(1) by (simp add: wellFormed_def liveIds_def)
  then have inj: "inj_on ?f (set (connections m))"
    by (simp add: distinct_map)
  have dD: "distinct ?D"
    using d by (simp add: distinct_map_filter)
  have disj: "set ?L \<inter> set ?D = {}"
    using inj by (auto dest: inj_onD)
  have un: "set ?L \<union> set ?D = set (liveIds m)"
    by (auto simp: liveIds_def)
  have old: "distinct (invokedIds m)" "set (liveIds m) \<inter> set (invokedIds m) = {}"
    using assms(2) by (simp_all add: calledOnce_def)
  have a: "distinct (invokedIds m @ ?D)"
    using old dD un by auto
  have b: "set ?L \<inter> set (invokedIds m @ ?D) = {}"
    using old(2) disj un by auto
  show ?thesis
    unfolding calledOnce_def live' inv' using a b by blast
qed

lemma calledOnce_perform:
  assumes "alwaysReturns throws" "wellFormed m" "calledOnce m"
  shows "calledOnce (perform throws op m)"
proof (cases op)
  case (RegisterConnection ex symb tf d r now)
  show ?thesis
  proof (cases "getConnection (generateKey ex symb tf) m")
    case None
    then show ?thesis
      using assms RegisterConnection
      by (simp add: registerConnection_def Let_def calledOnce_put_absent)
  next
    case (Some c)
    then show ?thesis
      using assms RegisterConnection
      by (simp add: registerConnection_def Let_def calledOnce_put_present)
  qed
next
  case (UpdateCachedData ex symb tf d now)
  then show ?thesis
    using assms(3)
    by (auto simp: updateCachedData_def Let_def calledOnce_put_present split: option.splits)
next
  case (DeactivateConnection ex symb tf)
  then show ?thesis
    using assms(3)
    by (auto simp: deactivateConnection_def Let_def calledOnce_put_present split: option.splits)
next
  case (ActivateConnection ex symb tf now)
  then show ?thesis
    using assms(3)
    by (auto simp: activateConnection_def Let_def calledOnce_put_present split: option.splits)
next
  case (RemoveConnection ex symb tf)
  have d: "distinct (map fst (connections m))" using assms(2) by (simp add: wellFormed_def)
  show ?thesis
  proof (cases "getConnection (generateKey ex symb tf) m")
    case None
    then show ?thesis using assms(3) RemoveConnection by (simp add: removeConnection_absent)
  next
    case (Some c)
    show ?thesis
    proof (cases "subscriptionCount c - 1 \<le> 0")
      case True
      from removeConnection_eq[OF assms(1) d Some True]
        calledOnce_filter[OF assms(2,3), of "\<lambda>e. fst e \<noteq> generateKey ex symb tf"]
      show ?thesis using RemoveConnection by simp
    next
      case False
      then show ?thesis
        using assms(3) Some RemoveConnection
        by (simp add: removeConnection_kept calledOnce_put_present)
    qed
  qed
next
  case (SweepFires now delay)
  have d: "distinct (map fst (connections m))" using assms(2) by (simp add: wellFormed_def)
  from fire_eq[OF assms(1) d] show ?thesis
    using SweepFires calledOnce_filter[OF assms(2,3), of "\<lambda>e. \<not> sweepCondition now delay (snd e)"]
    by simp
next
  case CleanupAll
  show ?thesis
    using CleanupAll calledOnce_filter[OF assms(2,3), of "\<lambda>e. False"]
    by (simp add: cleanupAll_eq[OF assms(1)])
qed

lemma calledOnce_performAll:
  "alwaysReturns throws \<Longrightarrow> wellFormed m \<Longrightarrow> calledOnce m \<Longrightarrow> calledOnce (performAll throws ops m)"
  by (induction ops arbitrary: m) (simp_all add: calledOnce_perform wellFormed_perform)

lemma calledOnce_reachable:
  "alwaysReturns throws \<Longrightarrow> calledOnce (performAll throws ops newManager)"
  by (rule calledOnce_performAll[OF _ wellFormed_newManager])
     (simp_all add: calledOnce_def newManager_def liveIds_def invokedIds_def)

section \<open>How often the unsubscribe callback of a connection object is called\<close>

text \<open>
  Claim C2 fails as stated. A callback that throws leaves \<open>removeConnection\<close> before the
  record is deleted, so the next \<open>removeConnection\<close> finds the record and calls the
  callback again: after one registration and two removals the callback of object 0 has
  been called twice, and the record is still in the registry.
\<close>

theorem C2_throwing_callback_called_twice_counterexample:
  "unsubscribeCalls 0 (performAll (\<lambda>h r. True)
      [RegisterConnection ''binance'' ''BTCUSDT'' ''1m'' [1::nat] (7::nat) 0,
       RemoveConnection ''binance'' ''BTCUSDT'' ''1m'',
       RemoveConnection ''binance'' ''BTCUSDT'' ''1m''] newManager) = 2
   \<and> inRegistry 0 (performAll (\<lambda>h r. True)
      [RegisterConnection ''binance'' ''BTCUSDT'' ''1m'' [1::nat] (7::nat) 0,
       RemoveConnection ''binance'' ''BTCUSDT'' ''1m'',
       RemoveConnection ''binance'' ''BTCUSDT'' ''1m''] newManager)"
  by (simp add: registry_defs unsubscribeCalls_def invokedIds_def inRegistry_def liveIds_def)

text \<open>
  Claim C2, amended. Start from the empty registry and perform any sequence of registry
  operations (registrations, cache updates, activations, deactivations,
  \<open>removeConnection\<close>, sweeps fired at any times with any delays, \<open>cleanupAll\<close>). If no
  unsubscribe callback throws, then for every connection object \<open>i\<close> the number of calls
  of its callback is 1 if the object was created and is no longer in the registry, and 0
  otherwise: never twice, and never zero once the record is destroyed. Whatever the
  callbacks do, a record that is no longer in the registry has had its callback called at
  least once, and nothing is called on an object that was never created.
\<close>

theorem C2_unsubscribe_exactly_once:
  "(alwaysReturns throws \<longrightarrow>
      unsubscribeCalls i (performAll throws ops newManager) =
        (if created i (performAll throws ops newManager)
            \<and> \<not> inRegistry i (performAll throws ops newManager)
         then 1 else 0))
   \<and> (created i (performAll throws ops newManager)
        \<and> \<not> inRegistry i (performAll throws ops newManager)
      \<longrightarrow> 1 \<le> unsubscribeCalls i (performAll throws ops newManager))
   \<and> (\<not> created i (performAll throws ops newManager)
      \<longrightarrow> unsubscribeCalls i (performAll throws ops newManager) = 0)"
proof -
  let ?M = "performAll throws ops newManager"
  have w: "set (liveIds ?M) \<union> set (invokedIds ?M) = {..<allocated ?M}"
    using wellFormed_reachable[of throws ops] by (simp add: wellFormed_def)
  have 1: "unsubscribeCalls i ?M = (if created i ?M \<and> \<not> inRegistry i ?M then 1 else 0)"
    if "alwaysReturns throws"
  proof -
    from calledOnce_reachable[OF that, of ops]
    have "distinct (invokedIds ?M)" "set (liveIds ?M) \<inter> set (invokedIds ?M) = {}"
      by (simp_all add: calledOnce_def)
    with w show ?thesis
      unfolding unsubscribeCalls_def created_def inRegistry_def
      by (auto simp: count_list_distinct)
  qed
  have 2: "1 \<le> unsubscribeCalls i ?M" if "created i ?M \<and> \<not> inRegistry i ?M"
  proof -
    from that w have "i \<in> set (invokedIds ?M)"
      unfolding created_def inRegistry_def by auto
    then have "0 < count_list (invokedIds ?M) i" by (rule count_list_member)
    then show ?thesis by (simp add: unsubscribeCalls_def)
  qed
  have 3: "unsubscribeCalls i ?M = 0" if "\<not> created i ?M"
  proof -
    from that w have "i \<notin> set (invokedIds ?M)"
      unfolding created_def by auto
    then show ?thesis by (simp add: unsubscribeCalls_def)
  qed
  from 1 2 3 show ?thesis by blast
qed

theorem C2_unsubscribe_exactly_once_witness:
  "unsubscribeCalls 0 (performAll (\<lambda>h r. False)
      [RegisterConnection ''binance'' ''BTCUSDT'' ''1m'' [1::nat] (7::nat) 0,
       DeactivateConnection ''binance'' ''BTCUSDT'' ''1m'',
       SweepFires 6000 5000, SweepFires 6001 5000, CleanupAll] newManager) = 1
   \<and> unsubscribeCalls 0 (performAll (\<lambda>h r. False)
      [RegisterConnection ''binance'' ''BTCUSDT'' ''1m'' [1::nat] (7::nat) 0,
       DeactivateConnection ''binance'' ''BTCUSDT'' ''1m''] newManager) = 0
   \<and> 1 \<le> unsubscribeCalls 0 (performAll (\<lambda>h r. h = [])
      [RegisterConnection ''binance'' ''BTCUSDT'' ''1m'' [1::nat] (7::nat) 0,
       RemoveConnection ''binance'' ''BTCUSDT'' ''1m'',
       RemoveConnection ''binance'' ''BTCUSDT'' ''1m''] newManager)"
proof -
  have q: "alwaysReturns (\<lambda>(h :: (nat \<times> nat) list) (r :: nat). False)"
    by (simp add: alwaysReturns_def)
  have gone: "created 0 (performAll (\<lambda>h r. h = [])
      [RegisterConnection ''binance'' ''BTCUSDT'' ''1m'' [1::nat] (7::nat) 0,
       RemoveConnection ''binance'' ''BTCUSDT'' ''1m'',
       RemoveConnection ''binance'' ''BTCUSDT'' ''1m''] newManager)
    \<and> \<not> inRegistry 0 (performAll (\<lambda>h r. h = [])
      [RegisterConnection ''binance'' ''BTCUSDT'' ''1m'' [1::nat] (7::nat) 0,
       RemoveConnection ''binance'' ''BTCUSDT'' ''1m'',
       RemoveConnection ''binance'' ''BTCUSDT'' ''1m''] newManager)"
    by (simp add: registry_defs created_def inRegistry_def liveIds_def)
  from C2_unsubscribe_exactly_once [of "\<lambda>h r. False" 0
      "[RegisterConnection ''binance'' ''BTCUSDT'' ''1m'' [1::nat] (7::nat) 0,
        DeactivateConnection ''binance'' ''BTCUSDT'' ''1m'',
        SweepFires 6000 5000, SweepFires 6001 5000, CleanupAll]"]
    C2_unsubscribe_exactly_once [of "\<lambda>h r. False" 0
      "[RegisterConnection ''binance'' ''BTCUSDT'' ''1m'' [1::nat] (7::nat) 0,
        DeactivateConnection ''binance'' ''BTCUSDT'' ''1m'']"]
    C2_unsubscribe_exactly_once [of "\<lambda>h r. h = []" 0
      "[RegisterConnection ''binance'' ''BTCUSDT'' ''1m'' [1::nat] (7::nat) 0,
        RemoveConnection ''binance'' ''BTCUSDT'' ''1m'',
        RemoveConnection ''binance'' ''BTCUSDT'' ''1m'']"] q gone
  show ?thesis
    by (simp add: registry_defs created_def inRegistry_def liveIds_def)
qed

section \<open>Registering under a key that already has a record: the callback\<close>

lemma callbackOf_put:
  assumes "callbackOf i r m" "objectId c' = i \<longrightarrow> unsubscribe c' = r"
  shows "callbackOf i r (putConnection key c' m)"
  using assms set_update_subset[of key c' "connections m"]
  by (auto simp: callbackOf_def putConnection_def)

lemma callbackOf_present:
  "callbackOf i r m \<Longrightarrow> getConnection key m = Some c \<Longrightarrow> objectId c = i \<longrightarrow> unsubscribe c = r"
  by (auto simp: callbackOf_def getConnection_def dest!: map_of_SomeD)

lemma callbackOf_onlyReleases:
  assumes "callbackOf i r m" "onlyReleases m m'"
  shows "callbackOf i r m'"
proof -
  from assms(2) obtain called deleted where
    h: "allocated m' = allocated m" "invoked m' = invoked m @ map logEntry called"
    "connections m' = filter (\<lambda>e. e \<notin> set deleted) (connections m)"
    "set called \<subseteq> set (connections m)"
    unfolding onlyReleases_def by blast
  have "\<forall>e \<in> set called. objectId (snd e) = i \<longrightarrow> unsubscribe (snd e) = r"
    using assms(1) h(4) by (auto simp: callbackOf_def)
  then show ?thesis
    using assms(1) by (auto simp: callbackOf_def h(1,2,3) logEntry_def)
qed

lemma callbackOf_perform:
  assumes "wellFormed m" "callbackOf i r m"
  shows "callbackOf i r (perform throws op m)"
proof (cases op)
  case (RegisterConnection ex symb tf d r' now)
  show ?thesis
  proof (cases "getConnection (generateKey ex symb tf) m")
    case None
    have "callbackOf i r (putConnection (generateKey ex symb tf)
             \<lparr>symbol = symb, exchange = ex, timeframe = tf, lastData = d, lastUpdated = now,
              isActive = True, unsubscribe = r', subscriptionCount = 1, objectId = allocated m\<rparr> m)"
      using assms(2) by (intro callbackOf_put) (auto simp: callbackOf_def)
    then show ?thesis
      using None RegisterConnection
      by (simp add: registerConnection_def Let_def callbackOf_def putConnection_def)
  next
    case (Some c)
    then show ?thesis
      using assms(2) RegisterConnection callbackOf_present[OF assms(2) Some]
      by (simp add: registerConnection_def Let_def callbackOf_put)
  qed
next
  case (UpdateCachedData ex symb tf d now)
  show ?thesis
  proof (cases "getConnection (generateKey ex symb tf) m")
    case None
    then show ?thesis using assms(2) UpdateCachedData by (simp add: updateCachedData_def Let_def)
  next
    case (Some c)
    then show ?thesis
      using assms(2) UpdateCachedData callbackOf_present[OF assms(2) Some]
      by (simp add: updateCachedData_def Let_def callbackOf_put)
  qed
next
  case (DeactivateConnection ex symb tf)
  show ?thesis
  proof (cases "getConnection (generateKey ex symb tf) m")
    case None
    then show ?thesis using assms(2) DeactivateConnection by (simp add: deactivateConnection_def Let_def)
  next
    case (Some c)
    then show ?thesis
      using assms(2) DeactivateConnection callbackOf_present[OF assms(2) Some]
      by (simp add: deactivateConnection_def Let_def callbackOf_put)
  qed
next
  case (ActivateConnection ex symb tf now)
  show ?thesis
  proof (cases "getConnection (generateKey ex symb tf) m")
    case None
    then show ?thesis using assms(2) ActivateConnection by (simp add: activateConnection_def Let_def)
  next
    case (Some c)
    then show ?thesis
      using assms(2) ActivateConnection callbackOf_present[OF assms(2) Some]
      by (simp add: activateConnection_def Let_def callbackOf_put)
  qed
next
  case (RemoveConnection ex symb tf)
  show ?thesis
  proof (cases "getConnection (generateKey ex symb tf) m")
    case None
    then show ?thesis using assms(2) RemoveConnection by (simp add: removeConnection_absent)
  next
    case (Some c)
    have c1: "callbackOf i r (putConnection (generateKey ex symb tf)
                (c\<lparr>subscriptionCount := subscriptionCount c - 1\<rparr>) m)"
      using assms(2) callbackOf_present[OF assms(2) Some] by (simp add: callbackOf_put)
    show ?thesis
    proof (cases "subscriptionCount c - 1 \<le> 0")
      case True
      have "distinct (map fst (connections m))" using assms(1) by (simp add: wellFormed_def)
      from callbackOf_onlyReleases[OF c1 onlyReleases_removeConnection[OF this Some True]]
      show ?thesis using RemoveConnection by simp
    next
      case False
      then show ?thesis
        using c1 Some RemoveConnection by (simp add: removeConnection_kept)
    qed
  qed
next
  case (SweepFires now delay)
  have "distinct (map fst (connections m))" using assms(1) by (simp add: wellFormed_def)
  from callbackOf_onlyReleases[OF assms(2) onlyReleases_fire[OF this]] show ?thesis
    using SweepFires by simp
next
  case CleanupAll
  from callbackOf_onlyReleases[OF assms(2) onlyReleases_cleanupAll] show ?thesis
    using CleanupAll by simp
qed

lemma callbackOf_performAll:
  "wellFormed m \<Longrightarrow> callbackOf i r m \<Longrightarrow> callbackOf i r (performAll throws ops m)"
  by (induction ops arbitrary: m) (simp_all add: callbackOf_perform wellFormed_perform)

lemma callbackOf_wellFormed:
  assumes "wellFormed m" "getConnection key m = Some c"
  shows "callbackOf (objectId c) (unsubscribe c) m"
proof -
  have mem: "(key, c) \<in> set (connections m)"
    using assms(2) by (auto simp: getConnection_def dest: map_of_SomeD)
  have inj: "inj_on (\<lambda>e. objectId (snd e)) (set (connections m))"
    using assms(1) by (simp add: wellFormed_def liveIds_def distinct_map)
  have live: "objectId c \<in> set (liveIds m)"
    using mem by (force simp: liveIds_def)
  then have 1: "objectId c < allocated m"
    using assms(1) by (auto simp: wellFormed_def)
  have 2: "\<forall>e \<in> set (connections m). objectId (snd e) = objectId c \<longrightarrow> unsubscribe (snd e) = unsubscribe c"
  proof (intro ballI impI)
    fix e assume e: "e \<in> set (connections m)" "objectId (snd e) = objectId c"
    from inj_onD[OF inj _ e(1) mem] e(2) have "e = (key, c)" by simp
    then show "unsubscribe (snd e) = unsubscribe c" by simp
  qed
  have 3: "\<forall>e \<in> set (invoked m). fst e = objectId c \<longrightarrow> snd e = unsubscribe c"
  proof (intro ballI impI)
    fix e assume e: "e \<in> set (invoked m)" "fst e = objectId c"
    with assms(1) mem have "unsubscribe (snd (key, c)) = snd e"
      unfolding wellFormed_def by (metis snd_conv)
    then show "snd e = unsubscribe c" by simp
  qed
  from 1 2 3 show ?thesis by (simp add: callbackOf_def)
qed

text \<open>
  Claim C7. Let the registry be reachable from the empty one, whatever the callbacks did on
  the way, and let the key have a record \<open>c\<close>. Then \<open>registerConnection\<close> with new data
  \<open>d2\<close> and a new callback \<open>r2\<close> returns the existing record with its count raised by one
  and \<open>lastUpdated\<close> refreshed, the subscription count read back is one higher, the stored
  callback and the object are the old ones, the resulting registry does not depend on
  \<open>d2\<close> or \<open>r2\<close> at all, and whatever operations follow, every call of a callback on this
  object calls the original one.
\<close>

theorem C7_registerConnection_existing:
  assumes "m = performAll throws pre newManager"
    and "getConnection (generateKey ex symb tf) m = Some c"
  shows "fst (registerConnection ex symb tf d2 r2 now m)
           = c\<lparr>subscriptionCount := subscriptionCount c + 1, lastUpdated := now\<rparr>
     \<and> getConnection (generateKey ex symb tf) (snd (registerConnection ex symb tf d2 r2 now m))
           = Some (fst (registerConnection ex symb tf d2 r2 now m))
     \<and> getSubscriptionCount ex symb tf (snd (registerConnection ex symb tf d2 r2 now m))
           = getSubscriptionCount ex symb tf m + 1
     \<and> unsubscribe (fst (registerConnection ex symb tf d2 r2 now m)) = unsubscribe c
     \<and> objectId (fst (registerConnection ex symb tf d2 r2 now m)) = objectId c
     \<and> (\<forall>d' r'. snd (registerConnection ex symb tf d2 r2 now m)
                = snd (registerConnection ex symb tf d' r' now m))
     \<and> (\<forall>throws' post.
           \<forall>e \<in> set (invoked (performAll throws' post (snd (registerConnection ex symb tf d2 r2 now m)))).
             fst e = objectId c \<longrightarrow> snd e = unsubscribe c)"
proof -
  let ?c' = "c\<lparr>subscriptionCount := subscriptionCount c + 1, lastUpdated := now\<rparr>"
  let ?m' = "putConnection (generateKey ex symb tf) ?c' m"
  have reg: "registerConnection ex symb tf d r now m = (?c', ?m')"
    for d :: "'a list" and r :: 'b
    using assms(2) by (simp add: registerConnection_def Let_def)
  have wf: "wellFormed m"
    unfolding assms(1) by (rule wellFormed_reachable)
  have wf': "wellFormed ?m'"
    using wf assms(2) by (simp add: wellFormed_put_present)
  have "callbackOf (objectId c) (unsubscribe c) m"
    by (rule callbackOf_wellFormed[OF wf assms(2)])
  then have "callbackOf (objectId c) (unsubscribe c) ?m'"
    by (rule callbackOf_put) simp
  then have "callbackOf (objectId c) (unsubscribe c) (performAll throws' post ?m')" for throws' post
    by (rule callbackOf_performAll[OF wf'])
  then have later: "\<forall>throws' post. \<forall>e \<in> set (invoked (performAll throws' post ?m')).
           fst e = objectId c \<longrightarrow> snd e = unsubscribe c"
    by (simp add: callbackOf_def)
  show ?thesis
    using assms(2) later
    by (simp add: reg getSubscriptionCount_def getConnection_putConnection)
qed

theorem C7_registerConnection_existing_witness:
  "getSubscriptionCount ''binance'' ''BTCUSDT'' ''1m''
     (snd (registerConnection ''binance'' ''BTCUSDT'' ''1m'' [2] 8 50
        (performAll (\<lambda>h r. False)
           [RegisterConnection ''binance'' ''BTCUSDT'' ''1m'' [1::nat] (7::nat) 0] newManager))) = 2
   \<and> invoked (performAll (\<lambda>h r. False)
                 [RemoveConnection ''binance'' ''BTCUSDT'' ''1m'',
                  RemoveConnection ''binance'' ''BTCUSDT'' ''1m'']
     (snd (registerConnection ''binance'' ''BTCUSDT'' ''1m'' [2] 8 50
        (performAll (\<lambda>h r. False)
           [RegisterConnection ''binance'' ''BTCUSDT'' ''1m'' [1::nat] (7::nat) 0] newManager))))
     = [(0, 7)]"
proof -
  let ?m = "performAll (\<lambda>h r. False)
              [RegisterConnection ''binance'' ''BTCUSDT'' ''1m'' [1::nat] (7::nat) 0] newManager"
  let ?c = "\<lparr>symbol = ''BTCUSDT'', exchange = ''binance'', timeframe = ''1m'', lastData = [1::nat],
             lastUpdated = 0, isActive = True, unsubscribe = 7::nat, subscriptionCount = 1,
             objectId = 0\<rparr>"
  have h: "getConnection (generateKey ''binance'' ''BTCUSDT'' ''1m'') ?m = Some ?c"
    by (simp add: registry_defs)
  from C7_registerConnection_existing [OF refl h, of "[2]" 8 50] show ?thesis
    by (simp add: registry_defs)
qed

section \<open>What a sweep removes\<close>












section \<open>The freshness window of the cache\<close>

text \<open>
  Claim C8. \<open>getCachedData\<close> returns data \<open>d\<close> exactly when the key has a record, less than
  30000 ms have passed since the record's \<open>lastUpdated\<close>, and \<open>d\<close> is the record's
  \<open>lastData\<close> (as a value: the copy has the same elements). Once more than 30000 ms have
  passed it returns \<open>null\<close>, although the record is still in the registry.
\<close>

theorem C8_getCachedData_freshness:
  "(getCachedData ex symb tf now m = Some d \<longleftrightarrow>
      (\<exists>c. getConnection (generateKey ex symb tf) m = Some c
           \<and> now - lastUpdated c < 30000 \<and> d = lastData c))
   \<and> (\<forall>c. getConnection (generateKey ex symb tf) m = Some c \<and> now - lastUpdated c > 30000
         \<longrightarrow> getCachedData ex symb tf now m = None
             \<and> getConnection (generateKey ex symb tf) m \<noteq> None)"
  by (auto simp: getCachedData_def split: option.splits)

theorem C8_getCachedData_freshness_witness:
  "getCachedData ''binance'' ''BTCUSDT'' ''1m'' 29999
     (snd (registerConnection ''binance'' ''BTCUSDT'' ''1m'' [1::nat, 2] (7::nat) 0 newManager))
     = Some [1, 2]
   \<and> getCachedData ''binance'' ''BTCUSDT'' ''1m'' 30001
     (snd (registerConnection ''binance'' ''BTCUSDT'' ''1m'' [1::nat, 2] (7::nat) 0 newManager))
     = None
   \<and> getConnection (generateKey ''binance'' ''BTCUSDT'' ''1m'')
     (snd (registerConnection ''binance'' ''BTCUSDT'' ''1m'' [1::nat, 2] (7::nat) 0 newManager))
     \<noteq> None"
  using C8_getCachedData_freshness [of "''binance''" "''BTCUSDT''" "''1m''" 29999
      "snd (registerConnection ''binance'' ''BTCUSDT'' ''1m'' [1::nat, 2] (7::nat) 0 newManager)" "[1, 2]"]
    C8_getCachedData_freshness [of "''binance''" "''BTCUSDT''" "''1m''" 30001
      "snd (registerConnection ''binance'' ''BTCUSDT'' ''1m'' [1::nat, 2] (7::nat) 0 newManager)" "[]"]
  by (simp add: registry_defs)

text \<open>The boundary: at exactly 30000 ms the data is no longer returned.\<close>

lemma getCachedData_boundary:
  "getConnection (generateKey ex symb tf) m = Some c \<Longrightarrow> now - lastUpdated c = 30000 \<Longrightarrow>
     getCachedData ex symb tf now m = None"
  by (simp add: getCachedData_def)

section \<open>Registering under a key that already has a record\<close>

text \<open>
  Claim C10. When the key already has a record \<open>c\<close>, \<open>registerConnection\<close> returns \<open>c\<close>
  with \<open>subscriptionCount\<close> one higher and \<open>lastUpdated\<close> set to the current time, stores
  exactly that, and so leaves \<open>isActive\<close> and \<open>lastData\<close> as they were. Hence a
  record that is inactive stays inactive while its count goes up; in particular a record
  deactivated from count 1 (now count 0, inactive) and then registered again has a
  subscription count of 1 while \<open>isConnectionActive\<close> is false.
\<close>

theorem C10_registerConnection_existing:
  "getConnection (generateKey ex symb tf) m = Some c \<Longrightarrow>
     registerConnection ex symb tf d r now m =
       (c\<lparr>subscriptionCount := subscriptionCount c + 1, lastUpdated := now\<rparr>,
        putConnection (generateKey ex symb tf)
          (c\<lparr>subscriptionCount := subscriptionCount c + 1, lastUpdated := now\<rparr>) m)
     \<and> isActive (fst (registerConnection ex symb tf d r now m)) = isActive c
     \<and> lastData (fst (registerConnection ex symb tf d r now m)) = lastData c
     \<and> getConnection (generateKey ex symb tf) (snd (registerConnection ex symb tf d r now m))
         = Some (fst (registerConnection ex symb tf d r now m))
     \<and> getSubscriptionCount ex symb tf (snd (registerConnection ex symb tf d r now m))
         = subscriptionCount c + 1
     \<and> (\<not> isActive c \<longrightarrow>
          \<not> isConnectionActive ex symb tf (snd (registerConnection ex symb tf d r now m)))
     \<and> (subscriptionCount c = 1 \<longrightarrow>
          subscriptionCount (the (getConnection (generateKey ex symb tf) (deactivateConnection ex symb tf m))) = 0
        \<and> \<not> isActive (the (getConnection (generateKey ex symb tf) (deactivateConnection ex symb tf m)))
        \<and> \<not> isConnectionActive ex symb tf
              (snd (registerConnection ex symb tf d r now (deactivateConnection ex symb tf m)))
        \<and> getSubscriptionCount ex symb tf
              (snd (registerConnection ex symb tf d r now (deactivateConnection ex symb tf m))) = 1)"
  by (simp add: registerConnection_def deactivateConnection_def isConnectionActive_def
      getSubscriptionCount_def Let_def getConnection_putConnection)

theorem C10_registerConnection_existing_witness:
  "getConnection (generateKey ''binance'' ''BTCUSDT'' ''1m'')
      (snd (registerConnection ''binance'' ''BTCUSDT'' ''1m'' [1::nat] (7::nat) 0 newManager)) \<noteq> None
   \<and> \<not> isConnectionActive ''binance'' ''BTCUSDT'' ''1m''
        (snd (registerConnection ''binance'' ''BTCUSDT'' ''1m'' [2] 8 50
           (deactivateConnection ''binance'' ''BTCUSDT'' ''1m''
             (snd (registerConnection ''binance'' ''BTCUSDT'' ''1m'' [1::nat] (7::nat) 0 newManager)))))
   \<and> getSubscriptionCount ''binance'' ''BTCUSDT'' ''1m''
        (snd (registerConnection ''binance'' ''BTCUSDT'' ''1m'' [2] 8 50
           (deactivateConnection ''binance'' ''BTCUSDT'' ''1m''
             (snd (registerConnection ''binance'' ''BTCUSDT'' ''1m'' [1::nat] (7::nat) 0 newManager))))) = 1"
proof -
  let ?m = "snd (registerConnection ''binance'' ''BTCUSDT'' ''1m'' [1::nat] (7::nat) 0 newManager)"
  let ?c = "\<lparr>symbol = ''BTCUSDT'', exchange = ''binance'', timeframe = ''1m'', lastData = [1::nat],
             lastUpdated = 0, isActive = True, unsubscribe = 7::nat, subscriptionCount = 1,
             objectId = 0\<rparr>"
  have h: "getConnection (generateKey ''binance'' ''BTCUSDT'' ''1m'') ?m = Some ?c"
    by (simp add: registry_defs)
  have one: "subscriptionCount ?c = 1" by simp
  from C10_registerConnection_existing [OF h, of "[2]" 8 50] one h show ?thesis by simp
qed

section \<open>Which keys the registry takes to be the same\<close>

lemma split_at_first:
  "x \<notin> set a \<Longrightarrow> x \<notin> set a' \<Longrightarrow> a @ x # b = a' @ x # b' \<longleftrightarrow> a = a' \<and> b = b'"
proof (induction a arbitrary: a')
  case Nil
  then show ?case by (cases a') auto
next
  case (Cons y a)
  then show ?case by (cases a') auto
qed

lemma generateKey_inject:
  assumes "CHR ''-'' \<notin> set ex" "CHR ''-'' \<notin> set ex'" "CHR ''-'' \<notin> set symb" "CHR ''-'' \<notin> set symb'"
  shows "generateKey ex symb tf = generateKey ex' symb' tf' \<longleftrightarrow> ex = ex' \<and> symb = symb' \<and> tf = tf'"
proof -
  have "ex @ CHR ''-'' # (symb @ CHR ''-'' # tf) = ex' @ CHR ''-'' # (symb' @ CHR ''-'' # tf')
        \<longleftrightarrow> ex = ex' \<and> symb @ CHR ''-'' # tf = symb' @ CHR ''-'' # tf'"
    using assms(1,2) by (rule split_at_first)
  moreover have "symb @ CHR ''-'' # tf = symb' @ CHR ''-'' # tf' \<longleftrightarrow> symb = symb' \<and> tf = tf'"
    using assms(3,4) by (rule split_at_first)
  ultimately show ?thesis
    by (simp add: generateKey_def)
qed

text \<open>
  Claim C4 fails as stated: \<open>generateKey\<close> joins the three strings as they are. A record
  registered for Binance/BTCUSDT/1m is not seen under binance/btcusdt/1m, although exchange
  and symbol differ only in letter case.
\<close>

theorem C4_keys_differing_in_case_counterexample:
  "equalIgnoringCase ''Binance'' ''binance'' \<and> equalIgnoringCase ''BTCUSDT'' ''btcusdt''
   \<and> getSubscriptionCount ''Binance'' ''BTCUSDT'' ''1m''
        (snd (registerConnection ''Binance'' ''BTCUSDT'' ''1m'' [1::nat] (7::nat) 0 newManager)) = 1
   \<and> getSubscriptionCount ''binance'' ''btcusdt'' ''1m''
        (snd (registerConnection ''Binance'' ''BTCUSDT'' ''1m'' [1::nat] (7::nat) 0 newManager)) = 0"
  by (simp add: equalIgnoringCase_def lowerChar_def registry_defs)

text \<open>
  Claim C4, amended. Keys are compared as the strings \<open>generateKey\<close> builds. For exchanges
  and symbols without the separator \<open>-\<close>, two instrument keys give the same string exactly
  when exchange, symbol and timeframe are equal character by character; after
  \<open>registerConnection\<close> under a key that had no record, the new record is what is found
  under an instrument key exactly when that key has the same three components.
\<close>

theorem C4_key_equality_is_exact:
  assumes "CHR ''-'' \<notin> set ex" "CHR ''-'' \<notin> set ex'" "CHR ''-'' \<notin> set symb" "CHR ''-'' \<notin> set symb'"
    and "getConnection (generateKey ex symb tf) m = None"
  shows "(generateKey ex symb tf = generateKey ex' symb' tf' \<longleftrightarrow> ex = ex' \<and> symb = symb' \<and> tf = tf')
     \<and> getSubscriptionCount ex' symb' tf' (snd (registerConnection ex symb tf d r now m))
         = (if ex = ex' \<and> symb = symb' \<and> tf = tf' then 1 else getSubscriptionCount ex' symb' tf' m)
     \<and> getConnection (generateKey ex' symb' tf') (snd (registerConnection ex symb tf d r now m))
         = (if ex = ex' \<and> symb = symb' \<and> tf = tf'
            then Some (fst (registerConnection ex symb tf d r now m))
            else getConnection (generateKey ex' symb' tf') m)"
proof -
  have k: "generateKey ex' symb' tf' = generateKey ex symb tf \<longleftrightarrow> ex = ex' \<and> symb = symb' \<and> tf = tf'"
    using generateKey_inject[OF assms(1-4), of tf tf'] by auto
  have g: "getConnection x (m'\<lparr>allocated := n\<rparr>) = getConnection x m'"
    for x n and m' :: "('a, 'b) manager"
    by (simp add: getConnection_def)
  show ?thesis
    using assms(5) k
    by (auto simp: registerConnection_def Let_def getSubscriptionCount_def g
        getConnection_putConnection)
qed

theorem C4_key_equality_is_exact_witness:
  "getSubscriptionCount ''binance'' ''BTCUSDT'' ''1m''
      (snd (registerConnection ''binance'' ''BTCUSDT'' ''1m'' [1::nat] (7::nat) 0 newManager)) = 1
   \<and> getSubscriptionCount ''Binance'' ''BTCUSDT'' ''1m''
      (snd (registerConnection ''binance'' ''BTCUSDT'' ''1m'' [1::nat] (7::nat) 0 newManager)) = 0"
proof -
  have a: "CHR ''-'' \<notin> set ''binance''" "CHR ''-'' \<notin> set ''Binance''" "CHR ''-'' \<notin> set ''BTCUSDT''"
    by simp_all
  have n: "getConnection (generateKey ''binance'' ''BTCUSDT'' ''1m'') (newManager :: (nat, nat) manager) = None"
    by (simp add: registry_defs)
  from C4_key_equality_is_exact [OF a(1) a(1) a(3) a(3) n, of "''1m''" "[1]" 7 0]
    C4_key_equality_is_exact [OF a(1) a(2) a(3) a(3) n, of "''1m''" "[1]" 7 0]
  show ?thesis by (simp add: registry_defs)
qed

section \<open>Deactivation keeps the record\<close>

lemma acquires_cases:
  assumes "acquires ex symb tf op"
  obtains d r now where "op = RegisterConnection ex symb tf d r now"
  | now where "op = ActivateConnection ex symb tf now"
  using assms by (cases op) auto

lemma acquire_step:
  assumes "acquires ex symb tf op" "getConnection (generateKey ex symb tf) m = Some c"
  shows "\<exists>c'. getConnection (generateKey ex symb tf) (perform throws op m) = Some c'
           \<and> subscriptionCount c' = subscriptionCount c + 1 \<and> invoked (perform throws op m) = invoked m"
  using assms(1)
proof (cases rule: acquires_cases)
  case (1 d r now)
  then show ?thesis
    using assms(2)
    by (simp add: registerConnection_def Let_def getConnection_putConnection invoked_putConnection)
next
  case (2 now)
  then show ?thesis
    using assms(2)
    by (simp add: activateConnection_def Let_def getConnection_putConnection invoked_putConnection)
qed

lemma acquire_all:
  assumes "\<forall>op \<in> set ops. acquires ex symb tf op" "getConnection (generateKey ex symb tf) m = Some c"
  shows "\<exists>c'. getConnection (generateKey ex symb tf) (performAll throws ops m) = Some c'
           \<and> subscriptionCount c' = subscriptionCount c + int (length ops)
           \<and> invoked (performAll throws ops m) = invoked m"
  using assms
proof (induction ops arbitrary: m c)
  case Nil
  then show ?case by simp
next
  case (Cons op ops)
  from Cons.prems have a: "acquires ex symb tf op" by simp
  from acquire_step[OF a Cons.prems(2)] obtain c1 where
    c1: "getConnection (generateKey ex symb tf) (perform throws op m) = Some c1"
    "subscriptionCount c1 = subscriptionCount c + 1" "invoked (perform throws op m) = invoked m"
    by blast
  from Cons.prems(1) have "\<forall>op \<in> set ops. acquires ex symb tf op" by simp
  from Cons.IH[OF this c1(1)] c1(2,3) show ?case by auto
qed

lemma deactivate_all:
  assumes "getConnection (generateKey ex symb tf) m = Some c" "subscriptionCount c = int n" "0 < n"
  shows "\<exists>c'. getConnection (generateKey ex symb tf)
                 (performAll throws (replicate n (DeactivateConnection ex symb tf)) m) = Some c'
           \<and> subscriptionCount c' = 0 \<and> \<not> isActive c'
           \<and> invoked (performAll throws (replicate n (DeactivateConnection ex symb tf)) m) = invoked m"
  using assms
proof (induction n arbitrary: m c)
  case 0
  then show ?case by simp
next
  case (Suc n)
  let ?k = "generateKey ex symb tf"
  let ?m1 = "deactivateConnection ex symb tf m"
  show ?case
  proof (cases "n = 0")
    case True
    then show ?thesis
      using Suc.prems
      by (simp add: deactivateConnection_def Let_def getConnection_putConnection invoked_putConnection)
  next
    case False
    have c1: "getConnection ?k ?m1 = Some (c\<lparr>subscriptionCount := subscriptionCount c - 1\<rparr>)"
      using Suc.prems False
      by (simp add: deactivateConnection_def Let_def getConnection_putConnection)
    have i1: "invoked ?m1 = invoked m"
      using Suc.prems by (simp add: deactivateConnection_def Let_def invoked_putConnection)
    have n1: "subscriptionCount (c\<lparr>subscriptionCount := subscriptionCount c - 1\<rparr>) = int n"
      using Suc.prems by simp
    from Suc.IH[OF c1 n1] False i1 show ?thesis by simp
  qed
qed

text \<open>
  Claim C5. Let the key have no record, in any registry and whatever the callbacks do. Make \<open>N\<close> calls of \<open>registerConnection\<close> or
  \<open>activateConnection\<close> for it, the first of them the \<open>registerConnection\<close> that creates the
  record (an \<open>activateConnection\<close> before that finds nothing and takes no reference), and
  then call \<open>deactivateConnection\<close> \<open>N\<close> times. The record is still in the registry, with
  \<open>subscriptionCount\<close> 0 and \<open>isActive\<close> false, and no unsubscribe callback has been called.
  On a key without a record \<open>deactivateConnection\<close> changes nothing.
\<close>

theorem C5_deactivation_hysteresis:
  assumes "getConnection (generateKey ex symb tf) m = None"
    and "\<forall>op \<in> set ops. acquires ex symb tf op"
  shows "(\<exists>c. getConnection (generateKey ex symb tf)
               (performAll throws (replicate (Suc (length ops)) (DeactivateConnection ex symb tf))
                  (performAll throws (RegisterConnection ex symb tf d r now # ops) m)) = Some c
            \<and> subscriptionCount c = 0 \<and> \<not> isActive c)
     \<and> invoked (performAll throws (replicate (Suc (length ops)) (DeactivateConnection ex symb tf))
                  (performAll throws (RegisterConnection ex symb tf d r now # ops) m)) = invoked m
     \<and> deactivateConnection ex symb tf m = m"
proof -
  let ?k = "generateKey ex symb tf"
  let ?m0 = "perform throws (RegisterConnection ex symb tf d r now) m"
  obtain c0 where c0: "getConnection ?k ?m0 = Some c0" "subscriptionCount c0 = 1"
    "invoked ?m0 = invoked m"
    using assms(1)
    by (simp add: registerConnection_def Let_def getConnection_putConnection invoked_putConnection
        getConnection_allocated)
  from acquire_all[OF assms(2) c0(1)] obtain c1 where
    c1: "getConnection ?k (performAll throws ops ?m0) = Some c1"
    "subscriptionCount c1 = subscriptionCount c0 + int (length ops)"
    "invoked (performAll throws ops ?m0) = invoked ?m0"
    by blast
  have n: "subscriptionCount c1 = int (Suc (length ops))" using c1(2) c0(2) by simp
  from deactivate_all[OF c1(1) n] c1(3) c0(3) assms(1) show ?thesis
    by (auto simp: deactivateConnection_def)
qed

theorem C5_deactivation_hysteresis_witness:
  "getSubscriptionCount ''binance'' ''BTCUSDT'' ''1m''
     (performAll (\<lambda>h r. False) (replicate 3 (DeactivateConnection ''binance'' ''BTCUSDT'' ''1m''))
        (performAll (\<lambda>h r. False) [RegisterConnection ''binance'' ''BTCUSDT'' ''1m'' [1::nat] (7::nat) 0,
                     ActivateConnection ''binance'' ''BTCUSDT'' ''1m'' 10,
                     RegisterConnection ''binance'' ''BTCUSDT'' ''1m'' [2] 8 20] newManager)) = 0
   \<and> invoked (performAll (\<lambda>h r. False) (replicate 3 (DeactivateConnection ''binance'' ''BTCUSDT'' ''1m''))
        (performAll (\<lambda>h r. False) [RegisterConnection ''binance'' ''BTCUSDT'' ''1m'' [1::nat] (7::nat) 0,
                     ActivateConnection ''binance'' ''BTCUSDT'' ''1m'' 10,
                     RegisterConnection ''binance'' ''BTCUSDT'' ''1m'' [2] 8 20] newManager)) = []"
proof -
  have n: "getConnection (generateKey ''binance'' ''BTCUSDT'' ''1m'') (newManager :: (nat, nat) manager) = None"
    by (simp add: registry_defs)
  have a: "\<forall>op \<in> set [ActivateConnection ''binance'' ''BTCUSDT'' ''1m'' 10,
                       RegisterConnection ''binance'' ''BTCUSDT'' ''1m'' [2::nat] (8::nat) 20].
             acquires ''binance'' ''BTCUSDT'' ''1m'' op"
    by simp
  from C5_deactivation_hysteresis [OF n a, of "\<lambda>h r. False" "[1]" 7 0] show ?thesis
    by (auto simp: getSubscriptionCount_eq newManager_def eval_nat_numeral)
qed

section \<open>The chart hook when the fetch fails\<close>

lemmas hook_defs =
  initializeChart_begin_def initializeChart_resume_def initializeChart_def unmountCleanup_def
  errorMessage_def

text \<open>
  Claim C9. When \<open>initializeChart\<close> does not reuse a connection it suspends at the fetch
  with the registry as it was and the call of \<open>fetchDataFn\<close> (with limit 500) logged. When
  the promise is rejected, then whatever the registry is at that moment, the rest of the
  function leaves it unchanged, calls nothing, stores the error message and clears
  \<open>isLoading\<close>. The rest of the function changes the registry only if the fetch succeeded
  and \<open>onSubscribe\<close> returned. For the uninterrupted call: on the fresh-fetch path with a
  failing fetch the registry after the call is the registry before it.
\<close>

theorem C9_fetch_failure_leaves_registry:
  "(fst (initializeChart_begin ex symb tf now1 now2 w) \<longleftrightarrow>
      \<not> (getCachedData ex symb tf now1 (registry w) \<noteq> None \<and> isConnectionActive ex symb tf (registry w)))
   \<and> (fst (initializeChart_begin ex symb tf now1 now2 w) \<longrightarrow>
        registry (snd (initializeChart_begin ex symb tf now1 now2 w)) = registry w
      \<and> calls (snd (initializeChart_begin ex symb tf now1 now2 w))
          = calls w @ [FetchDataFn ex symb tf 500])
   \<and> registry (initializeChart_resume ex symb tf (Inl err) onSubscribe now w') = registry w'
   \<and> calls (initializeChart_resume ex symb tf (Inl err) onSubscribe now w') = calls w'
   \<and> chartError (chart (initializeChart_resume ex symb tf (Inl err) onSubscribe now w'))
       = Some (errorMessage err)
   \<and> \<not> isLoading (chart (initializeChart_resume ex symb tf (Inl err) onSubscribe now w'))
   \<and> (registry (initializeChart_resume ex symb tf settled onSubscribe now w') \<noteq> registry w' \<longrightarrow>
        (\<exists>freshData unsubscribeFn. settled = Inr freshData \<and> onSubscribe = Inr unsubscribeFn))
   \<and> (fst (initializeChart_begin ex symb tf now1 now2 w) \<and> fetchDataFn ex symb tf 500 = Inl err \<longrightarrow>
        registry (initializeChart ex symb tf fetchDataFn onSubscribe now1 now2 now3 w) = registry w
      \<and> chartError (chart (initializeChart ex symb tf fetchDataFn onSubscribe now1 now2 now3 w))
          = Some (errorMessage err)
      \<and> \<not> isLoading (chart (initializeChart ex symb tf fetchDataFn onSubscribe now1 now2 now3 w)))"
  by (auto simp: hook_defs Let_def split: option.splits sum.splits)

theorem C9_fetch_failure_leaves_registry_witness:
  "registry (initializeChart ''binance'' ''BTCUSDT'' ''1m'' (\<lambda>ex symb tf limit. Inl (ErrorObject ''timeout''))
      (Inr (8::nat)) 100 100 100
      \<lparr>chart = \<lparr>isLoading = True, chartData = [], chartError = None, isReusingConnection = False\<rparr>,
       registry = deactivateConnection ''binance'' ''BTCUSDT'' ''1m''
          (snd (registerConnection ''binance'' ''BTCUSDT'' ''1m'' [1::nat] (7::nat) 0 newManager)),
       calls = []\<rparr>)
    = deactivateConnection ''binance'' ''BTCUSDT'' ''1m''
          (snd (registerConnection ''binance'' ''BTCUSDT'' ''1m'' [1::nat] (7::nat) 0 newManager))
   \<and> chartError (chart (initializeChart ''binance'' ''BTCUSDT'' ''1m'' (\<lambda>ex symb tf limit. Inl (ErrorObject ''timeout''))
      (Inr (8::nat)) 100 100 100
      \<lparr>chart = \<lparr>isLoading = True, chartData = [], chartError = None, isReusingConnection = False\<rparr>,
       registry = deactivateConnection ''binance'' ''BTCUSDT'' ''1m''
          (snd (registerConnection ''binance'' ''BTCUSDT'' ''1m'' [1::nat] (7::nat) 0 newManager)),
       calls = []\<rparr>))
    = Some ''timeout''"
proof -
  let ?m = "deactivateConnection ''binance'' ''BTCUSDT'' ''1m''
          (snd (registerConnection ''binance'' ''BTCUSDT'' ''1m'' [1::nat] (7::nat) 0 newManager))"
  let ?w = "\<lparr>chart = \<lparr>isLoading = True, chartData = [], chartError = None, isReusingConnection = False\<rparr>,
       registry = ?m, calls = []\<rparr>"
  have p: "fst (initializeChart_begin ''binance'' ''BTCUSDT'' ''1m'' 100 100 ?w)"
    by (simp add: hook_defs registry_defs)
  have f: "(\<lambda>ex symb tf limit. Inl (ErrorObject ''timeout'') :: thrown + nat list)
             ''binance'' ''BTCUSDT'' ''1m'' 500 = Inl (ErrorObject ''timeout'')"
    by simp
  have "registry (initializeChart ''binance'' ''BTCUSDT'' ''1m''
            (\<lambda>ex symb tf limit. Inl (ErrorObject ''timeout'')) (Inr (8::nat)) 100 100 100 ?w) = registry ?w
      \<and> chartError (chart (initializeChart ''binance'' ''BTCUSDT'' ''1m''
            (\<lambda>ex symb tf limit. Inl (ErrorObject ''timeout'')) (Inr (8::nat)) 100 100 100 ?w))
          = Some (errorMessage (ErrorObject ''timeout''))"
    using C9_fetch_failure_leaves_registry [where ex = "''binance''" and symb = "''BTCUSDT''" and tf = "''1m''"
      and ?now1.0 = 100 and ?now2.0 = 100 and ?now3.0 = 100 and w = ?w and w' = ?w and now = 100
      and settled = "Inl (ErrorObject ''timeout'')"
      and fetchDataFn = "\<lambda>ex symb tf limit. Inl (ErrorObject ''timeout'')"
      and err = "ErrorObject ''timeout''" and onSubscribe = "Inr (8::nat)"] p f
    by blast
  then
  show ?thesis by (simp add: errorMessage_def)
qed

section \<open>Mounting again while the record is kept\<close>

text \<open>
  A record that is inactive, or whose count is not positive, is never reused: whatever the
  age of its data, \<open>initializeChart\<close> goes on to call \<open>fetchDataFn\<close>.
\<close>

lemma inactive_record_not_reused:
  "getConnection (generateKey ex symb tf) (registry w) = Some c \<Longrightarrow>
     \<not> isActive c \<or> subscriptionCount c \<le> 0 \<Longrightarrow>
     fst (initializeChart_begin ex symb tf now1 now2 w)
     \<and> calls (snd (initializeChart_begin ex symb tf now1 now2 w)) = calls w @ [FetchDataFn ex symb tf 500]"
  by (auto simp: initializeChart_begin_def isConnectionActive_def getCachedData_def Let_def)

text \<open>
  Claim C1, evaluated. A record is created by \<open>registerConnection\<close> at time 0 and
  deactivated once; its cached data is still fresh at time 100 and no sweep has run. The
  hook's \<open>initializeChart\<close> at time 100 nevertheless calls \<open>fetchDataFn\<close> and \<open>onSubscribe\<close>
  again, does not report a reused connection, and registers on top of the kept record:
  the count is 1, but \<open>isActive\<close> stays false, the cached data is the old one, and the new
  unsubscribe callback (8) is dropped.
\<close>

theorem C1_remount_within_grace_fetches_again:
  "getCachedData ''binance'' ''BTCUSDT'' ''1m'' 100
      (deactivateConnection ''binance'' ''BTCUSDT'' ''1m''
          (snd (registerConnection ''binance'' ''BTCUSDT'' ''1m'' [1::nat] (7::nat) 0 newManager)))
     = Some [1]
   \<and> initializeChart ''binance'' ''BTCUSDT'' ''1m'' (\<lambda>ex symb tf limit. Inr [2]) (Inr 8) 100 100 100
      \<lparr>chart = \<lparr>isLoading = True, chartData = [], chartError = None, isReusingConnection = False\<rparr>,
       registry = deactivateConnection ''binance'' ''BTCUSDT'' ''1m''
          (snd (registerConnection ''binance'' ''BTCUSDT'' ''1m'' [1::nat] (7::nat) 0 newManager)),
       calls = []\<rparr>
     = \<lparr>chart = \<lparr>isLoading = False, chartData = [2], chartError = None, isReusingConnection = False\<rparr>,
        registry = \<lparr>connections = [(''binance-BTCUSDT-1m'',
            \<lparr>symbol = ''BTCUSDT'', exchange = ''binance'', timeframe = ''1m'', lastData = [1],
             lastUpdated = 100, isActive = False, unsubscribe = 7, subscriptionCount = 1,
             objectId = 0\<rparr>)],
          invoked = [], allocated = 1\<rparr>,
        calls = [FetchDataFn ''binance'' ''BTCUSDT'' ''1m'' 500, OnSubscribe]\<rparr>"
  by (simp add: hook_defs registry_defs)

section \<open>The subscription count below zero\<close>

text \<open>
  Claim C3, evaluated. A chart mounts (the fetch succeeds, the record is registered with
  count 1) and unmounts (count 0). It mounts again within the grace period, the fetch
  fails, so nothing is registered; it unmounts, and the cleanup of the hook calls
  \<open>deactivateConnection\<close> all the same. \<open>getSubscriptionCount\<close> is now -1. The same
  happens in the registry alone with one registration and two deactivations, and with one
  registration and two calls of \<open>removeConnection\<close> when the callback throws.
\<close>

theorem C3_unmount_after_failed_fetch_goes_negative:
  "getSubscriptionCount ''binance'' ''BTCUSDT'' ''1m''
     (registry
       (unmountCleanup ''binance'' ''BTCUSDT'' ''1m''
         (initializeChart ''binance'' ''BTCUSDT'' ''1m''
            (\<lambda>ex symb tf limit. Inl (ErrorObject ''timeout'')) (Inr 8) 100 100 100
           (unmountCleanup ''binance'' ''BTCUSDT'' ''1m''
             (initializeChart ''binance'' ''BTCUSDT'' ''1m''
                (\<lambda>ex symb tf limit. Inr [1::nat]) (Inr (7::nat)) 0 0 0
                \<lparr>chart = \<lparr>isLoading = True, chartData = [], chartError = None,
                           isReusingConnection = False\<rparr>,
                 registry = newManager, calls = []\<rparr>))))) = - 1
   \<and> getSubscriptionCount ''binance'' ''BTCUSDT'' ''1m''
       (deactivateConnection ''binance'' ''BTCUSDT'' ''1m''
         (deactivateConnection ''binance'' ''BTCUSDT'' ''1m''
           (snd (registerConnection ''binance'' ''BTCUSDT'' ''1m'' [1::nat] (7::nat) 0 newManager))))
       = - 1
   \<and> getSubscriptionCount ''binance'' ''BTCUSDT'' ''1m''
       (snd (removeConnection (\<lambda>h r. True) ''binance'' ''BTCUSDT'' ''1m''
         (snd (removeConnection (\<lambda>h r. True) ''binance'' ''BTCUSDT'' ''1m''
           (snd (registerConnection ''binance'' ''BTCUSDT'' ''1m'' [1::nat] (7::nat) 0 newManager))))))
       = - 1"
  by (simp add: hook_defs registry_defs)

end
